(* ===== verification/Prelude.thy ===== *)
theory Prelude
  imports Main "HOL-Library.Word" "HOL-Library.Multiset"
begin

text \<open>
  Shared ground of the development: the machine integers of the Rust code, IP addresses, the
  lemma collections of the library, the option and list facts several components use, and the
  contract of a resource that is counted by guards (two components of curf hand out such guards:
  \<^verbatim>\<open>ConnectionGuard\<close> in \<^verbatim>\<open>load_balancer.rs\<close> and \<^verbatim>\<open>IpConnectionGuard\<close> in \<^verbatim>\<open>main.rs\<close>).
\<close>

section \<open>Machine integers and addresses\<close>

text \<open>The targets curf is released for are 64-bit, so \<^verbatim>\<open>usize\<close> has 64 bits.\<close>

type_synonym u8 = "8 word"
type_synonym u16 = "16 word"
type_synonym u32 = "32 word"
type_synonym u64 = "64 word"
type_synonym usize = "64 word"

text \<open>
  \<^verbatim>\<open>std::net::IpAddr\<close>: a version 4 address is its 32-bit number (what \<^verbatim>\<open>u32::from\<close> reads),
  a version 6 address its 128-bit number in network order.
\<close>

datatype ip_addr = V4 u32 | V6 "128 word"

section \<open>Lemma collections\<close>

named_theorems frame_simps \<open>what an operation leaves unchanged\<close>
named_theorems step_simps \<open>what an operation does, branch by branch\<close>
named_theorems inv_intros \<open>an operation keeps an invariant\<close>

section \<open>Counting from one\<close>

lemma ex_from_one_Suc:
  "(\<exists>j. 1 \<le> j \<and> j \<le> Suc k \<and> P j) \<longleftrightarrow> P 1 \<or> (\<exists>j. 1 \<le> j \<and> j \<le> k \<and> P (Suc j))"
  (is "?L \<longleftrightarrow> ?R")
proof
  assume ?L
  then obtain j where j: "1 \<le> j" "j \<le> Suc k" "P j" by blast
  show ?R
  proof (cases "j = 1")
    case False
    with j have "1 \<le> j - 1 \<and> j - 1 \<le> k \<and> P (Suc (j - 1))" by auto
    then show ?R by blast
  qed (use j in simp)
next
  assume ?R
  then show ?L by (auto intro: exI [of _ 1])
qed

section \<open>Words that count\<close>

lemma unat_Suc_less: "a < (b :: 'a::len word) \<Longrightarrow> unat (a + 1) = Suc (unat a)"
proof -
  assume "a < b"
  then have "unat a < unat b" by (simp add: word_less_nat_alt)
  moreover have "unat b < 2 ^ LENGTH('a)" by (rule unsigned_less)
  ultimately have "Suc (unat a) < 2 ^ LENGTH('a)" by linarith
  then show ?thesis by (simp add: unat_word_ariths)
qed

lemma unat_pred: "0 < (a :: 'a::len word) \<Longrightarrow> Suc (unat (a - 1)) = unat a"
  by (simp add: word_gt_0 unat_minus_one unat_gt_0)

lemma word_Suc_le: "a < (b :: 'a::len word) \<Longrightarrow> a + 1 \<le> b"
  by (simp add: word_le_nat_alt word_less_nat_alt unat_Suc_less)

lemma word_pred_le: "0 < (a :: 'a::len word) \<Longrightarrow> a \<le> b \<Longrightarrow> a - 1 \<le> b"
  using unat_pred [of a] by (simp add: word_le_nat_alt)

section \<open>Resources counted by guards\<close>

text \<open>
  An acquired resource is represented by a guard whose destructor gives it back. The contract:
  while the count of \<open>k\<close> is below \<open>limit\<close>, acquiring adds one to it; while it is above zero,
  releasing takes one away; neither touches another key. The client keeps the bag of live
  guards and never releases a guard it does not hold.
\<close>

locale guarded_count =
  fixes count_of :: "'s \<Rightarrow> 'k \<Rightarrow> nat"
    and limit :: "'s \<Rightarrow> 'k \<Rightarrow> nat"
    and acq :: "'k \<Rightarrow> 's \<Rightarrow> 's"
    and rel :: "'k \<Rightarrow> 's \<Rightarrow> 's"
  assumes acq_same: "count_of s k < limit s k \<Longrightarrow> count_of (acq k s) k = Suc (count_of s k)"
    and acq_other: "j \<noteq> k \<Longrightarrow> count_of (acq k s) j = count_of s j"
    and rel_same: "0 < count_of s k \<Longrightarrow> Suc (count_of (rel k s) k) = count_of s k"
    and rel_other: "j \<noteq> k \<Longrightarrow> count_of (rel k s) j = count_of s j"
begin

definition tracks :: "'s \<Rightarrow> 'k multiset \<Rightarrow> bool" where
  "tracks s M \<longleftrightarrow> (\<forall>k. count_of s k = count M k)"

lemma tracks_acq:
  assumes "tracks s M" and "count_of s k < limit s k"
  shows "tracks (acq k s) (add_mset k M)"
  unfolding tracks_def
proof
  fix j
  show "count_of (acq k s) j = count (add_mset k M) j"
    using assms by (cases "j = k") (auto simp: tracks_def acq_same acq_other)
qed

lemma tracks_rel:
  assumes "tracks s M" and "k \<in># M"
  shows "tracks (rel k s) (M - {#k#})"
  unfolding tracks_def
proof
  fix j
  have pos: "0 < count_of s k" using assms by (simp add: tracks_def)
  show "count_of (rel k s) j = count (M - {#k#}) j"
    using assms rel_same [OF pos] by (cases "j = k") (auto simp: tracks_def rel_other)
qed

lemma tracks_acq_rel:
  assumes "tracks s M" and "count_of s k < limit s k"
  shows "tracks (rel k (acq k s)) M"
  using tracks_rel [OF tracks_acq [OF assms], of k] by simp

end

end
