(* ===== verification/RustStr.thy ===== *)
theory RustStr
  imports Prelude "HOL-Library.Sublist"
begin

text \<open>
  The part of Rust's string library the program uses. A \<^verbatim>\<open>str\<close> is its UTF-8 byte sequence, so
  \<^typ>\<open>string\<close> (one \<^typ>\<open>char\<close> per byte) models it; searching, splitting and prefix tests of UTF-8
  text agree with the same operations on the bytes. Numbers print and parse as \<^verbatim>\<open>Display\<close> and
  \<^verbatim>\<open>FromStr\<close> do.
\<close>

section \<open>Characters\<close>

definition newline :: char where "newline = CHR 0x0A"

definition quote :: char where "quote = CHR 0x22"

text \<open>\<^verbatim>\<open>u8::to_ascii_lowercase\<close>, and \<^verbatim>\<open>str::to_lowercase\<close> on ASCII text.\<close>

definition ascii_lower_char :: "char \<Rightarrow> char" where
  "ascii_lower_char c =
     (if 65 \<le> (of_char c :: nat) \<and> (of_char c :: nat) \<le> 90 then char_of (of_char c + 32 :: nat) else c)"

definition ascii_lower :: "string \<Rightarrow> string" where
  "ascii_lower s = map ascii_lower_char s"

definition eq_ignore_ascii_case :: "string \<Rightarrow> string \<Rightarrow> bool" where
  "eq_ignore_ascii_case a b \<longleftrightarrow> ascii_lower a = ascii_lower b"

definition is_ascii_ws :: "char \<Rightarrow> bool" where
  "is_ascii_ws c \<longleftrightarrow> (9 \<le> (of_char c :: nat) \<and> (of_char c :: nat) \<le> 13) \<or> c = CHR '' ''"

text \<open>\<^verbatim>\<open>str::trim\<close> on ASCII text.\<close>

definition ascii_trim :: "string \<Rightarrow> string" where
  "ascii_trim s = rev (dropWhile is_ascii_ws (rev (dropWhile is_ascii_ws s)))"

lemma ascii_lower_Nil [simp]: "ascii_lower [] = []"
  by (simp add: ascii_lower_def)

lemma ascii_lower_append [simp]: "ascii_lower (a @ b) = ascii_lower a @ ascii_lower b"
  by (simp add: ascii_lower_def)

lemma length_ascii_lower [simp]: "length (ascii_lower s) = length s"
  by (simp add: ascii_lower_def)

lemma ascii_lower_char_idem [simp]: "ascii_lower_char (ascii_lower_char c) = ascii_lower_char c"
  by (auto simp: ascii_lower_char_def)

lemma ascii_lower_idem [simp]: "ascii_lower (ascii_lower s) = ascii_lower s"
  by (simp add: ascii_lower_def)

text \<open>Lower-casing neither makes nor removes a character that is no letter.\<close>

lemma ascii_lower_char_eq_iff:
  assumes "of_char c < (65::nat) \<or> (90 < (of_char c :: nat) \<and> (of_char c :: nat) < 97) \<or> 122 < (of_char c :: nat)"
  shows "ascii_lower_char d = c \<longleftrightarrow> d = c"
proof
  assume eq: "ascii_lower_char d = c"
  show "d = c"
  proof (cases "65 \<le> (of_char d :: nat) \<and> (of_char d :: nat) \<le> 90")
    case True
    then have "ascii_lower_char d = char_of (of_char d + 32 :: nat)"
      by (simp add: ascii_lower_char_def)
    with eq have "(of_char c :: nat) = of_char d + 32"
      using True by (auto simp: of_char_of)
    with True assms show ?thesis by auto
  next
    case False
    with eq show ?thesis by (auto simp: ascii_lower_char_def)
  qed
next
  assume "d = c"
  with assms show "ascii_lower_char d = c" by (auto simp: ascii_lower_char_def)
qed

lemma set_ascii_lower_iff:
  assumes "of_char c < (65::nat) \<or> (90 < (of_char c :: nat) \<and> (of_char c :: nat) < 97) \<or> 122 < (of_char c :: nat)"
  shows "c \<in> set (ascii_lower s) \<longleftrightarrow> c \<in> set s"
proof -
  have "c \<in> ascii_lower_char ` set s \<longleftrightarrow> (\<exists>d \<in> set s. ascii_lower_char d = c)" by auto
  then show ?thesis by (simp add: ascii_lower_def ascii_lower_char_eq_iff [OF assms])
qed

lemma ascii_trim_Nil_iff: "ascii_trim s = [] \<longleftrightarrow> (\<forall>c \<in> set s. is_ascii_ws c)"
  by (metis (no_types, lifting) ascii_trim_def dropWhile_eq_Nil_conv rev_is_Nil_conv set_rev
      set_dropWhileD dropWhile_eq_self_iff hd_in_set hd_dropWhile)

section \<open>Searching and splitting\<close>

text \<open>\<^verbatim>\<open>str::contains\<close> with a string pattern.\<close>

fun contains :: "string \<Rightarrow> string \<Rightarrow> bool" where
  "contains [] p = (p = [])"
| "contains (c # s) p = (prefix p (c # s) \<or> contains s p)"

lemma contains_iff_sublist: "contains s p \<longleftrightarrow> sublist p s"
  by (induction s) (auto simp: sublist_Cons_right)

lemma contains_set: "contains s p \<Longrightarrow> set p \<subseteq> set s"
  by (simp add: contains_iff_sublist set_mono_sublist)

lemma contains_infix: "contains (a @ p @ b) p"
  by (auto simp: contains_iff_sublist)

lemma contains_iff: "contains s p \<longleftrightarrow> (\<exists>a b. s = a @ p @ b)"
  by (auto simp: contains_iff_sublist sublist_def)

text \<open>\<^verbatim>\<open>str::find\<close> and \<^verbatim>\<open>str::rfind\<close> with a character pattern: the byte index.\<close>

fun find_char :: "char \<Rightarrow> string \<Rightarrow> nat option" where
  "find_char c [] = None"
| "find_char c (d # s) = (if d = c then Some 0 else map_option Suc (find_char c s))"

definition rfind_char :: "char \<Rightarrow> string \<Rightarrow> nat option" where
  "rfind_char c s = map_option (\<lambda>i. length s - Suc i) (find_char c (rev s))"

text \<open>\<^verbatim>\<open>s.split(c).next()\<close>, which is never \<^verbatim>\<open>None\<close>: the text before the first \<open>c\<close>.\<close>

definition split_first :: "char \<Rightarrow> string \<Rightarrow> string" where
  "split_first c s = takeWhile (\<lambda>d. d \<noteq> c) s"

definition strip_prefix :: "string \<Rightarrow> string \<Rightarrow> string option" where
  "strip_prefix p s = (if prefix p s then Some (drop (length p) s) else None)"

definition starts_with :: "string \<Rightarrow> string \<Rightarrow> bool" where
  "starts_with s p \<longleftrightarrow> prefix p s"

definition trim_end_matches :: "char \<Rightarrow> string \<Rightarrow> string" where
  "trim_end_matches c s = rev (dropWhile (\<lambda>d. d = c) (rev s))"

lemma find_char_None [simp]: "find_char c s = None \<longleftrightarrow> c \<notin> set s"
  by (induction s) auto

lemma find_char_append [simp]:
  "c \<notin> set a \<Longrightarrow> find_char c (a @ c # b) = Some (length a)"
  by (induction a) auto

lemma rfind_char_None [simp]: "rfind_char c s = None \<longleftrightarrow> c \<notin> set s"
  by (simp add: rfind_char_def)

lemma rfind_char_append [simp]:
  assumes "c \<notin> set b"
  shows "rfind_char c (a @ c # b) = Some (length a)"
proof -
  have "find_char c (rev (a @ c # b)) = Some (length (rev b))"
    using assms find_char_append [of c "rev b" "rev a"] by simp
  then show ?thesis by (simp add: rfind_char_def)
qed

lemma trim_end_matches_append [simp]:
  "trim_end_matches c (s @ [c]) = trim_end_matches c s"
  by (simp add: trim_end_matches_def)

lemma trim_end_matches_id:
  "s = [] \<or> last s \<noteq> c \<Longrightarrow> trim_end_matches c s = s"
  by (cases s rule: rev_cases) (auto simp: trim_end_matches_def)

lemma split_first_notin [simp]: "c \<notin> set (split_first c s)"
  by (auto simp: split_first_def dest: set_takeWhileD)

section \<open>Numbers\<close>

definition digit_char :: "nat \<Rightarrow> char" where
  "digit_char d = char_of (48 + d)"

definition digit_val :: "char \<Rightarrow> nat option" where
  "digit_val c =
     (if 48 \<le> (of_char c :: nat) \<and> (of_char c :: nat) \<le> 57 then Some (of_char c - 48) else None)"

text \<open>\<^verbatim>\<open>Display\<close> of an unsigned integer.\<close>

fun show_nat :: "nat \<Rightarrow> string" where
  "show_nat n = (if n < 10 then [digit_char n] else show_nat (n div 10) @ [digit_char (n mod 10)])"

declare show_nat.simps [simp del]

text \<open>
  \<^verbatim>\<open>FromStr\<close> of an unsigned integer with largest value \<open>m\<close>: an optional plus sign, then at least
  one digit; a value above \<open>m\<close> is an error as soon as it is seen.
\<close>

fun parse_digits :: "nat \<Rightarrow> nat \<Rightarrow> string \<Rightarrow> nat option" where
  "parse_digits m acc [] = Some acc"
| "parse_digits m acc (c # s) =
     (case digit_val c of
        None \<Rightarrow> None
      | Some d \<Rightarrow> if acc * 10 + d \<le> m then parse_digits m (acc * 10 + d) s else None)"

definition parse_unsigned :: "nat \<Rightarrow> string \<Rightarrow> nat option" where
  "parse_unsigned m s =
     (case s of
        [] \<Rightarrow> None
      | c # r \<Rightarrow> if c = CHR ''+'' then (if r = [] then None else parse_digits m 0 r)
                else parse_digits m 0 s)"

definition parse_u16 :: "string \<Rightarrow> u16 option" where
  "parse_u16 s = map_option of_nat (parse_unsigned 65535 s)"

lemma digit_val_digit_char [simp]: "d < 10 \<Longrightarrow> digit_val (digit_char d) = Some d"
  by (simp add: digit_val_def digit_char_def)

lemma digit_val_plus [simp]: "digit_val (CHR ''+'') = None"
  by (simp add: digit_val_def)

lemma digit_char_neq_plus [simp]: "d < 10 \<Longrightarrow> digit_char d \<noteq> CHR ''+''"
  using digit_val_digit_char [of d] by fastforce

lemma show_nat_nonempty [simp]: "show_nat n \<noteq> []"
  by (subst show_nat.simps) simp

lemma show_nat_digits: "c \<in> set (show_nat n) \<Longrightarrow> \<exists>d < 10. c = digit_char d"
proof (induction n rule: show_nat.induct)
  case (1 n)
  show ?case
  proof (cases "n < 10")
    case True
    with "1.prems" show ?thesis by (auto simp: show_nat.simps [of n])
  next
    case False
    with "1.prems" have "c \<in> set (show_nat (n div 10)) \<or> c = digit_char (n mod 10)"
      by (auto simp: show_nat.simps [of n])
    then show ?thesis
    proof
      assume "c = digit_char (n mod 10)"
      then show ?thesis by (intro exI [of _ "n mod 10"]) simp
    qed (rule "1.IH" [OF False])
  qed
qed

lemma digit_char_neq:
  "d < 10 \<Longrightarrow> (of_char c :: nat) < 48 \<or> 57 < (of_char c :: nat) \<Longrightarrow> digit_char d \<noteq> c"
  by (auto simp: digit_char_def)

lemma notin_show_nat:
  "(of_char c :: nat) < 48 \<or> 57 < (of_char c :: nat) \<Longrightarrow> c \<notin> set (show_nat n)"
  using digit_char_neq show_nat_digits by blast

lemma plus_notin_show_nat: "CHR ''+'' \<notin> set (show_nat n)"
  using show_nat_digits [of "CHR ''+''" n] digit_char_neq_plus by metis

lemma parse_digits_append:
  "parse_digits m acc (s @ t) = Option.bind (parse_digits m acc s) (\<lambda>a. parse_digits m a t)"
  by (induction m acc s rule: parse_digits.induct) (auto split: option.splits)

lemma parse_digits_show_nat: "n \<le> m \<Longrightarrow> parse_digits m 0 (show_nat n) = Some n"
proof (induction n rule: show_nat.induct)
  case (1 n)
  show ?case
  proof (cases "n < 10")
    case True
    with "1.prems" show ?thesis by (simp add: show_nat.simps [of n])
  next
    case False
    then have "parse_digits m 0 (show_nat (n div 10)) = Some (n div 10)"
      using "1.IH" "1.prems" by simp
    then show ?thesis
      using False "1.prems" by (simp add: show_nat.simps [of n] parse_digits_append)
  qed
qed

text \<open>Printing a number and parsing it back gives the number, up to the largest value.\<close>

lemma parse_unsigned_show_nat:
  assumes "n \<le> m"
  shows "parse_unsigned m (show_nat n) = Some n"
proof (cases "show_nat n")
  case (Cons c r)
  then have "c \<noteq> CHR ''+''" using plus_notin_show_nat [of n] by auto
  with Cons show ?thesis
    using parse_digits_show_nat [OF assms] by (simp add: parse_unsigned_def)
qed simp

lemma parse_u16_show_nat: "n \<le> 65535 \<Longrightarrow> parse_u16 (show_nat n) = Some (of_nat n)"
  by (simp add: parse_u16_def parse_unsigned_show_nat)

lemma parse_digits_bound: "parse_digits m acc s = Some n \<Longrightarrow> acc \<le> m \<Longrightarrow> n \<le> m"
  by (induction m acc s rule: parse_digits.induct) (auto split: option.splits if_splits)

lemma parse_unsigned_bound: "parse_unsigned m s = Some n \<Longrightarrow> n \<le> m"
  by (auto simp: parse_unsigned_def simp del: parse_digits.simps
      dest: parse_digits_bound split: list.splits if_splits)

section \<open>UTF-8 and white space\<close>

text \<open>
  \<^verbatim>\<open>std::str::from_utf8\<close> accepts exactly the well-formed byte sequences of the Unicode standard
  (table 3-7): no overlong form, no surrogate, nothing above U+10FFFF.
\<close>

definition in_range :: "nat \<Rightarrow> nat \<Rightarrow> char \<Rightarrow> bool" where
  "in_range lo hi c \<longleftrightarrow> lo \<le> (of_char c :: nat) \<and> (of_char c :: nat) \<le> hi"

definition cont_byte :: "char \<Rightarrow> bool" where
  "cont_byte = in_range 0x80 0xBF"

fun utf8_seq_len :: "string \<Rightarrow> nat option" where
  "utf8_seq_len [] = None"
| "utf8_seq_len (a # r) =
     (if in_range 0 0x7F a then Some 1
      else if in_range 0xC2 0xDF a then
        (case r of b # _ \<Rightarrow> if cont_byte b then Some 2 else None | _ \<Rightarrow> None)
      else if in_range 0xE0 0xEF a then
        (case r of
           b # c # _ \<Rightarrow>
             if (if in_range 0xE0 0xE0 a then in_range 0xA0 0xBF b
                 else if in_range 0xED 0xED a then in_range 0x80 0x9F b
                 else cont_byte b) \<and> cont_byte c then Some 3 else None
         | _ \<Rightarrow> None)
      else if in_range 0xF0 0xF4 a then
        (case r of
           b # c # d # _ \<Rightarrow>
             if (if in_range 0xF0 0xF0 a then in_range 0x90 0xBF b
                 else if in_range 0xF4 0xF4 a then in_range 0x80 0x8F b
                 else cont_byte b) \<and> cont_byte c \<and> cont_byte d then Some 4 else None
         | _ \<Rightarrow> None)
      else None)"

lemma utf8_seq_len_pos: "utf8_seq_len s = Some n \<Longrightarrow> 0 < n"
  by (cases s) (auto split: if_splits list.splits)

function utf8_valid :: "string \<Rightarrow> bool" where
  "utf8_valid s =
     (if s = [] then True
      else case utf8_seq_len s of None \<Rightarrow> False | Some n \<Rightarrow> utf8_valid (drop n s))"
  by pat_completeness auto
termination
  by (relation "measure length") (auto dest: utf8_seq_len_pos)

declare utf8_valid.simps [simp del]

definition from_utf8 :: "string \<Rightarrow> string option" where
  "from_utf8 s = (if utf8_valid s then Some s else None)"

text \<open>
  The UTF-8 encodings of the characters with the Unicode property \<open>White_Space\<close>, which
  \<^verbatim>\<open>split_whitespace\<close> splits at.
\<close>

definition ws_len :: "string \<Rightarrow> nat option" where
  "ws_len s =
     (case s of
        [] \<Rightarrow> None
      | a # r \<Rightarrow>
          if is_ascii_ws a then Some 1
          else (case r of
             [] \<Rightarrow> None
           | b # r' \<Rightarrow>
               if in_range 0xC2 0xC2 a \<and> (in_range 0x85 0x85 b \<or> in_range 0xA0 0xA0 b) then Some 2
               else (case r' of
                  [] \<Rightarrow> None
                | c # _ \<Rightarrow>
                    if (in_range 0xE1 0xE1 a \<and> in_range 0x9A 0x9A b \<and> in_range 0x80 0x80 c)
                     \<or> (in_range 0xE2 0xE2 a \<and> in_range 0x80 0x80 b
                          \<and> (in_range 0x80 0x8A c \<or> in_range 0xA8 0xA9 c \<or> in_range 0xAF 0xAF c))
                     \<or> (in_range 0xE2 0xE2 a \<and> in_range 0x81 0x81 b \<and> in_range 0x9F 0x9F c)
                     \<or> (in_range 0xE3 0xE3 a \<and> in_range 0x80 0x80 b \<and> in_range 0x80 0x80 c)
                    then Some 3 else None)))"

lemma ws_len_pos: "ws_len s = Some n \<Longrightarrow> 0 < n"
  by (auto simp: ws_len_def split: list.splits if_splits)

text \<open>\<^verbatim>\<open>split_whitespace\<close>: the non-empty words, \<open>w\<close> the word read so far (reversed).\<close>

function split_ws :: "string \<Rightarrow> string \<Rightarrow> string list" where
  "split_ws w [] = (if w = [] then [] else [rev w])"
| "split_ws w (c # s) =
     (case ws_len (c # s) of
        None \<Rightarrow> split_ws (c # w) s
      | Some n \<Rightarrow> (if w = [] then [] else [rev w]) @ split_ws [] (drop n (c # s)))"
  by pat_completeness auto
termination
  by (relation "measure (\<lambda>(w, s). length s)") (auto dest: ws_len_pos)

definition split_whitespace :: "string \<Rightarrow> string list" where
  "split_whitespace s = split_ws [] s"

text \<open>\<^verbatim>\<open>iter.nth(i)\<close>.\<close>

definition nth_opt :: "'a list \<Rightarrow> nat \<Rightarrow> 'a option" where
  "nth_opt xs i = (if i < length xs then Some (xs ! i) else None)"

end
