(* ===== verification/RustFloat.thy ===== *)
theory RustFloat
  imports Complex_Main "HOL-Library.Log_Nat" Prelude
begin

text \<open>
  The \<^verbatim>\<open>f64\<close> arithmetic of the rate limiter. A finite \<^verbatim>\<open>f64\<close> is the rational number it stands
  for; every operation of the code is the exact operation followed by \<open>rnd64\<close>, the IEEE 754
  rounding to a 53-bit significand, ties to even. The exponent range is not limited here: the
  values of the rate limiter are 0 or lie between \<open>2^-53\<close> and \<open>2^97\<close>, far inside the range of
  a double, so neither infinities nor subnormal numbers arise. The laws the rate limiter needs
  are the locale \<open>f64_rounding\<close>, interpreted on \<open>rnd64\<close>.
\<close>

section \<open>Rounding to the nearest, ties to even\<close>

definition round_half_even :: "rat \<Rightarrow> int" where
  "round_half_even y =
     (let f = \<lfloor>y\<rfloor>; d = y - of_int f
      in if d < 1/2 then f else if 1/2 < d then f + 1 else if even f then f else f + 1)"

lemma round_half_even_cases: "round_half_even y = \<lfloor>y\<rfloor> \<or> round_half_even y = \<lfloor>y\<rfloor> + 1"
  by (simp add: round_half_even_def Let_def)

lemma round_half_even_int [simp]: "round_half_even (of_int i) = i"
  by (simp add: round_half_even_def)

lemma round_half_even_err: "\<bar>of_int (round_half_even y) - y\<bar> \<le> 1/2"
proof -
  have "of_int \<lfloor>y\<rfloor> \<le> y" and "y < of_int \<lfloor>y\<rfloor> + 1" by linarith+
  then show ?thesis by (auto simp: round_half_even_def Let_def)
qed

lemma round_half_even_mono:
  assumes "x \<le> y"
  shows "round_half_even x \<le> round_half_even y"
proof (cases "\<lfloor>x\<rfloor> = \<lfloor>y\<rfloor>")
  case True
  with assms show ?thesis by (auto simp: round_half_even_def Let_def)
next
  case False
  with assms have "\<lfloor>x\<rfloor> + 1 \<le> \<lfloor>y\<rfloor>" using floor_mono [OF assms] by linarith
  then show ?thesis using round_half_even_cases [of x] round_half_even_cases [of y] by linarith
qed

text \<open>The exponent of a positive rational: the largest \<open>e\<close> with \<open>2^e \<le> x\<close>.\<close>

definition ilog2 :: "rat \<Rightarrow> int" where
  "ilog2 x =
     (let (n, d) = quotient_of x; k = bitlen n - bitlen d
      in if 2 powi k \<le> x then k else k - 1)"

lemma powi_2_pos [simp]: "0 < (2::rat) powi k"
  by simp

lemma ilog2_bounds:
  assumes "0 < x"
  shows "2 powi (ilog2 x) \<le> x" and "x < 2 powi (ilog2 x + 1)"
proof -
  obtain n d where q: "quotient_of x = (n, d)" by (cases "quotient_of x")
  have d: "0 < d" using quotient_of_denom_pos [OF q] .
  have x: "x = of_int n / of_int d" using quotient_of_div [OF q] .
  with assms d have n: "0 < n" by (simp add: zero_less_divide_iff)
  let ?a = "bitlen n" and ?b = "bitlen d"
  have a: "0 < ?a" and b: "0 < ?b" using n d by (auto simp: bitlen_alt_def)
  have "2 ^ nat (?a - 1) \<le> n" "n < 2 ^ nat ?a" using bitlen_bounds [OF n] by simp_all
  then have "(of_int (2 ^ nat (?a - 1)) :: rat) \<le> of_int n" "(of_int n :: rat) < of_int (2 ^ nat ?a)"
    by (simp_all only: of_int_le_iff of_int_less_iff)
  then have n': "2 powi (?a - 1) \<le> (of_int n :: rat)" "(of_int n :: rat) < 2 powi ?a"
    using a by (simp_all add: power_int_def)
  have "2 ^ nat (?b - 1) \<le> d" "d < 2 ^ nat ?b" using bitlen_bounds [OF d] by simp_all
  then have "(of_int (2 ^ nat (?b - 1)) :: rat) \<le> of_int d" "(of_int d :: rat) < of_int (2 ^ nat ?b)"
    by (simp_all only: of_int_le_iff of_int_less_iff)
  then have d': "2 powi (?b - 1) \<le> (of_int d :: rat)" "(of_int d :: rat) < 2 powi ?b"
    using b by (simp_all add: power_int_def)
  have "x < 2 powi ?a / 2 powi (?b - 1)"
    unfolding x using n n' d' d by (intro frac_less) auto
  then have "x < 2 powi (?a - (?b - 1))" by (simp add: power_int_diff [symmetric])
  moreover have eq: "?a - (?b - 1) = ?a - ?b + 1" by simp
  ultimately have up: "x < 2 powi (?a - ?b + 1)" unfolding eq by blast
  have "2 powi (?a - 1) / 2 powi ?b < x"
    unfolding x using n n' d' d by (intro frac_less2) auto
  then have lo: "2 powi (?a - ?b - 1) < x"
    by (simp add: power_int_diff [symmetric] algebra_simps)
  show "2 powi (ilog2 x) \<le> x" and "x < 2 powi (ilog2 x + 1)"
    using up lo by (auto simp: ilog2_def q Let_def)
qed

lemma ilog2_mono:
  assumes "0 < x" and "x \<le> y"
  shows "ilog2 x \<le> ilog2 y"
proof (rule ccontr)
  assume "\<not> ilog2 x \<le> ilog2 y"
  then have "(2::rat) powi (ilog2 y + 1) \<le> 2 powi (ilog2 x)"
    by (intro power_int_increasing) auto
  with ilog2_bounds [of x] ilog2_bounds [of y] assms show False by linarith
qed

section \<open>The rounding of a double\<close>

definition ulp64 :: "rat \<Rightarrow> rat" where
  "ulp64 x = 2 powi (ilog2 \<bar>x\<bar> - 52)"

definition rnd64 :: "rat \<Rightarrow> rat" where
  "rnd64 x = (if x = 0 then 0 else of_int (round_half_even (x / ulp64 x)) * ulp64 x)"

lemma ulp64_pos [simp]: "0 < ulp64 x" and ulp64_nonneg [simp]: "0 \<le> ulp64 x"
  and ulp64_nonzero [simp]: "ulp64 x \<noteq> 0"
  by (simp_all add: ulp64_def)

lemma rnd64_exact:
  assumes "x = of_int i * ulp64 x"
  shows "rnd64 x = x"
proof (cases "x = 0")
  case False
  have "x / ulp64 x = of_int i" using assms by (metis nonzero_mult_div_cancel_right ulp64_pos less_irrefl)
  with False assms show ?thesis by (simp add: rnd64_def)
qed (simp add: rnd64_def)

lemma rnd64_err:
  assumes "0 \<le> x"
  shows "\<bar>rnd64 x - x\<bar> \<le> x / 2 ^ 53"
proof (cases "x = 0")
  case False
  with assms have pos: "0 < x" by simp
  let ?u = "ulp64 x"
  have "rnd64 x - x = (of_int (round_half_even (x / ?u)) - x / ?u) * ?u"
    using pos by (simp add: rnd64_def algebra_simps)
  then have "\<bar>rnd64 x - x\<bar> = \<bar>of_int (round_half_even (x / ?u)) - x / ?u\<bar> * ?u"
    by (simp add: abs_mult)
  also have "\<dots> \<le> 1/2 * ?u"
    using round_half_even_err by (intro mult_right_mono) auto
  also have "1/2 * ?u = 2 powi (ilog2 x) / 2 ^ 53"
    using pos by (simp add: ulp64_def power_int_diff)
  also have "\<dots> \<le> x / 2 ^ 53"
    using ilog2_bounds(1) [OF pos] by (simp add: divide_right_mono)
  finally show ?thesis .
qed (simp add: rnd64_def)

lemma rnd64_binade:
  assumes "0 < x"
  shows "2 powi (ilog2 x) \<le> rnd64 x" and "rnd64 x \<le> 2 powi (ilog2 x + 1)"
proof -
  let ?u = "ulp64 x" and ?e = "ilog2 x"
  have u: "?u = 2 powi (?e - 52)" using assms by (simp add: ulp64_def)
  have two: "(2::rat) powi (?e + k) = of_int (2 ^ nat (k + 52)) * ?u" if "0 \<le> k + 52" for k
  proof -
    have "(2::rat) powi (?e + k) = 2 powi (k + 52) * 2 powi (?e - 52)"
      by (simp add: power_int_add [symmetric] algebra_simps)
    then show ?thesis using that by (simp add: u power_int_def)
  qed
  have lo: "of_int (2 ^ nat (0 + 52)) \<le> x / ?u"
    using ilog2_bounds(1) [OF assms] two [of 0] by (simp add: pos_le_divide_eq del: of_int_power)
  have hi: "x / ?u \<le> of_int (2 ^ nat (1 + 52))"
    using ilog2_bounds(2) [OF assms] two [of 1] by (simp add: pos_divide_le_eq del: of_int_power)
  have "2 ^ nat (0 + 52) \<le> round_half_even (x / ?u)" "round_half_even (x / ?u) \<le> 2 ^ nat (1 + 52)"
    using round_half_even_mono [OF lo] round_half_even_mono [OF hi]
    by (simp_all only: round_half_even_int)
  then have "of_int (2 ^ nat (0 + 52)) * ?u \<le> of_int (round_half_even (x / ?u)) * ?u"
      "of_int (round_half_even (x / ?u)) * ?u \<le> of_int (2 ^ nat (1 + 52)) * ?u"
    by (simp_all only: mult_le_cancel_right_pos ulp64_pos of_int_le_iff)
  then show "2 powi ?e \<le> rnd64 x" and "rnd64 x \<le> 2 powi (?e + 1)"
    using two [of 0] two [of 1] assms by (simp_all add: rnd64_def)
qed

lemma rnd64_mono:
  assumes "0 \<le> x" and "x \<le> y"
  shows "rnd64 x \<le> rnd64 y"
proof (cases "x = 0")
  case True
  show ?thesis
  proof (cases "y = 0")
    case False
    with True assms have "0 < y" by simp
    then have "0 < rnd64 y" using rnd64_binade(1) [of y] by (meson less_le_trans powi_2_pos)
    with True show ?thesis by (simp add: rnd64_def)
  qed (simp add: True)
next
  case False
  with assms have x: "0 < x" and y: "0 < y" by auto
  show ?thesis
  proof (cases "ilog2 x = ilog2 y")
    case True
    then have "ulp64 x = ulp64 y" using x y by (simp add: ulp64_def)
    moreover have "x / ulp64 y \<le> y / ulp64 y" using assms by (simp add: divide_right_mono)
    ultimately show ?thesis
      using x y round_half_even_mono by (simp add: rnd64_def)
  next
    case False
    with ilog2_mono [OF x assms(2)] have "ilog2 x + 1 \<le> ilog2 y" by simp
    then have "(2::rat) powi (ilog2 x + 1) \<le> 2 powi (ilog2 y)"
      by (intro power_int_increasing) auto
    with rnd64_binade(2) [OF x] rnd64_binade(1) [OF y] show ?thesis by linarith
  qed
qed

lemma rnd64_nat:
  assumes "n \<le> 2 ^ 53"
  shows "rnd64 (of_nat n) = of_nat n"
proof (cases "n = 0")
  case False
  let ?x = "of_nat n :: rat"
  let ?e = "ilog2 ?x"
  have pos: "0 < ?x" using False by simp
  show ?thesis
  proof (cases "?e \<le> 52")
    case True
    have "?x = of_int (int n * 2 ^ nat (52 - ?e)) * ulp64 ?x"
    proof -
      have "(2::rat) ^ nat (52 - ?e) = 2 powi (52 - ?e)" using True by (simp add: power_int_def)
      then have "(2::rat) ^ nat (52 - ?e) * 2 powi (?e - 52) = 2 powi ((52 - ?e) + (?e - 52))"
        using power_int_add [of "2::rat" "52 - ?e" "?e - 52"] by simp
      then show ?thesis by (simp add: ulp64_def mult.assoc)
    qed
    then show ?thesis by (rule rnd64_exact)
  next
    case False
    have "(2::rat) powi 53 \<le> 2 powi ?e" using False by (intro power_int_increasing) auto
    also have "\<dots> \<le> ?x" by (rule ilog2_bounds(1) [OF pos])
    finally have "(2::rat) ^ 53 \<le> ?x" by simp
    moreover have "?x \<le> 2 ^ 53" using assms by (metis of_nat_le_iff of_nat_numeral of_nat_power)
    ultimately have x: "?x = 2 ^ 53" by simp
    then have "?e \<le> 53"
      using ilog2_bounds(1) [OF pos] power_int_strict_increasing [of 53 ?e "2::rat"] by force
    with False have "?e = 53" by simp
    then have "?x = of_int (2 ^ 52) * ulp64 ?x" using x by (simp add: ulp64_def)
    then show ?thesis by (rule rnd64_exact)
  qed
qed (simp add: rnd64_def)

section \<open>What a client may rely on\<close>

text \<open>
  The contract of a rounding with relative error \<open>u\<close> on non-negative numbers: it is monotone,
  it leaves the integers up to \<open>2^53\<close> alone, and it errs by at most the factor \<open>1 + u\<close>.
\<close>

locale f64_rounding =
  fixes rnd :: "rat \<Rightarrow> rat" and u :: rat
  assumes mono: "0 \<le> x \<Longrightarrow> x \<le> y \<Longrightarrow> rnd x \<le> rnd y"
    and nat_exact: "n \<le> 2 ^ 53 \<Longrightarrow> rnd (of_nat n) = of_nat n"
    and err: "0 \<le> x \<Longrightarrow> rnd x \<le> x * (1 + u)"
    and u_nonneg: "0 \<le> u"
begin

lemma zero [simp]: "rnd 0 = 0"
  using nat_exact [of 0] by simp

lemma nonneg: "0 \<le> x \<Longrightarrow> 0 \<le> rnd x"
  using mono [of 0 x] by simp

lemma ge_nat: "n \<le> 2 ^ 53 \<Longrightarrow> of_nat n \<le> x \<Longrightarrow> of_nat n \<le> rnd x"
  using mono [of "of_nat n" x] nat_exact [of n] by simp

lemma ge_one: "1 \<le> x \<Longrightarrow> 1 \<le> rnd x"
  using ge_nat [of 1 x] by simp

lemma le_nat: "n \<le> 2 ^ 53 \<Longrightarrow> 0 \<le> x \<Longrightarrow> x \<le> of_nat n \<Longrightarrow> rnd x \<le> of_nat n"
  using mono [of x "of_nat n"] nat_exact [of n] by simp

text \<open>Rounding errors of nested operations multiply.\<close>

lemma err_pow:
  assumes "0 \<le> x" and "x \<le> y * (1 + u) ^ k"
  shows "rnd x \<le> y * (1 + u) ^ Suc k"
proof -
  have "rnd x \<le> x * (1 + u)" using assms by (intro err)
  also have "\<dots> \<le> (y * (1 + u) ^ k) * (1 + u)"
    using assms u_nonneg by (intro mult_right_mono) auto
  finally show ?thesis by (simp add: mult_ac)
qed

lemma pow_ge_1: "1 \<le> (1 + u) ^ k"
  using u_nonneg by simp

lemma le_pow: "0 \<le> y \<Longrightarrow> y \<le> y * (1 + u) ^ k"
  using mult_left_mono [OF pow_ge_1 [of k], of y] by simp

end

interpretation r64: f64_rounding rnd64 "1 / 2 ^ 53"
proof unfold_locales
  fix x :: rat
  assume "0 \<le> x"
  then have "rnd64 x - x \<le> x / 2 ^ 53" using rnd64_err [of x] by linarith
  then show "rnd64 x \<le> x * (1 + 1 / 2 ^ 53)" by (simp add: algebra_simps)
qed (auto intro: rnd64_mono rnd64_nat)

section \<open>Durations\<close>

text \<open>
  \<^verbatim>\<open>Duration::as_secs_f64\<close> of a duration in nanoseconds: the seconds and the nanoseconds are
  converted, divided and added in \<^verbatim>\<open>f64\<close>.
\<close>

definition as_secs_f64 :: "nat \<Rightarrow> rat" where
  "as_secs_f64 ns =
     rnd64 (rnd64 (of_nat (ns div 1000000000)) + rnd64 (of_nat (ns mod 1000000000) / 1000000000))"

text \<open>\<^verbatim>\<open>Instant::duration_since\<close> of an earlier instant; it saturates at zero.\<close>

definition duration_since :: "nat \<Rightarrow> nat \<Rightarrow> nat" where
  "duration_since now earlier = now - earlier"

lemma as_secs_f64_0 [simp]: "as_secs_f64 0 = 0"
  by (simp add: as_secs_f64_def)

lemma as_secs_f64_nonneg: "0 \<le> as_secs_f64 ns"
  unfolding as_secs_f64_def by (intro r64.nonneg add_nonneg_nonneg) auto

lemma as_secs_f64_ge:
  assumes "n * 1000000000 \<le> ns" and "n \<le> 2 ^ 53"
  shows "of_nat n \<le> as_secs_f64 ns"
proof -
  have "n \<le> ns div 1000000000" using div_le_mono [OF assms(1), of 1000000000] by simp
  then have "of_nat n \<le> rnd64 (of_nat (ns div 1000000000))"
    using assms(2) by (intro r64.ge_nat) auto
  moreover have "0 \<le> rnd64 (of_nat (ns mod 1000000000) / 1000000000)"
    by (intro r64.nonneg) simp
  ultimately show ?thesis
    unfolding as_secs_f64_def using assms(2) by (intro r64.ge_nat) linarith+
qed

lemma as_secs_f64_upper:
  "as_secs_f64 ns \<le> of_nat ns / 1000000000 * (1 + 1 / 2 ^ 53) ^ 2"
proof -
  let ?s = "of_nat (ns div 1000000000) :: rat" and ?n = "of_nat (ns mod 1000000000) / 1000000000 :: rat"
  have split: "of_nat ns / 1000000000 = ?s + ?n"
  proof -
    have "(of_nat ns :: rat) = of_nat (ns div 1000000000 * 1000000000 + ns mod 1000000000)"
      by (simp only: div_mult_mod_eq)
    also have "\<dots> = ?s * 1000000000 + of_nat (ns mod 1000000000)"
      by (simp only: of_nat_add of_nat_mult of_nat_numeral)
    finally show ?thesis by (simp add: field_simps)
  qed
  have "rnd64 ?s + rnd64 ?n \<le> (?s + ?n) * (1 + 1 / 2 ^ 53) ^ 1"
    using r64.err [of ?s] r64.err [of ?n] by (simp add: algebra_simps)
  then have "rnd64 (rnd64 ?s + rnd64 ?n) \<le> (?s + ?n) * (1 + 1 / 2 ^ 53) ^ Suc 1"
    by (intro r64.err_pow add_nonneg_nonneg r64.nonneg) auto
  then show ?thesis by (simp add: as_secs_f64_def split numeral_2_eq_2)
qed

end
