(* ===== verification/Http.thy ===== *)
theory Http
  imports RustStr
begin

text \<open>
  The HTTP values the components exchange: the types of the \<^verbatim>\<open>http\<close> crate that hyper re-exports,
  as data. A \<^verbatim>\<open>HeaderMap\<close> is a multimap from the lower-case header name to its values in order
  of arrival: \<^verbatim>\<open>get\<close> reads the first value, \<^verbatim>\<open>insert\<close> replaces all of them, the builder's
  \<^verbatim>\<open>header\<close> appends one. What those crates compute (parsing a URI, which bytes a header value may
  hold) is not modelled here: the definitions that need it take it as an argument.
\<close>

datatype http_method = GET | HEAD | OtherMethod string

type_synonym header_map = "string \<Rightarrow> string list"

definition no_headers :: header_map where
  "no_headers = (\<lambda>_. [])"

definition header_get :: "header_map \<Rightarrow> string \<Rightarrow> string option" where
  "header_get h n = (case h n of [] \<Rightarrow> None | v # _ \<Rightarrow> Some v)"

definition header_insert :: "string \<Rightarrow> string \<Rightarrow> header_map \<Rightarrow> header_map" where
  "header_insert n v h = h(n := [v])"

definition header_append :: "string \<Rightarrow> string \<Rightarrow> header_map \<Rightarrow> header_map" where
  "header_append n v h = h(n := h n @ [v])"

lemma header_get_no_headers [simp]: "header_get no_headers n = None"
  by (simp add: header_get_def no_headers_def)

lemma header_get_insert [simp]:
  "header_get (header_insert n v h) m = (if m = n then Some v else header_get h m)"
  by (simp add: header_get_def header_insert_def)

lemma header_values_insert [simp]: "header_insert n v h m = (if m = n then [v] else h m)"
  by (simp add: header_insert_def)

lemma header_get_append [simp]:
  "header_get (header_append n v h) m =
     (if m = n \<and> header_get h n = None then Some v else header_get h m)"
  by (auto simp: header_get_def header_append_def split: list.splits)

text \<open>What the code reads of a \<^verbatim>\<open>hyper::Uri\<close>.\<close>

record uri =
  uri_path :: string
  uri_query :: "string option"
  uri_path_and_query :: "string option"
  uri_host :: "string option"
  uri_port :: "u16 option"

record request =
  rq_method :: http_method
  rq_uri :: uri
  rq_headers :: header_map
  rq_body :: string

record response =
  resp_status :: nat
  resp_headers :: header_map
  resp_body :: string

text \<open>\<^verbatim>\<open>empty_body\<close>, which \<^verbatim>\<open>proxy.rs\<close> and \<^verbatim>\<open>static_files.rs\<close> both define.\<close>

definition empty_body :: string where
  "empty_body = []"

definition TOO_MANY_REQUESTS :: nat where "TOO_MANY_REQUESTS = 429"
definition FORBIDDEN :: nat where "FORBIDDEN = 403"
definition MOVED_PERMANENTLY :: nat where "MOVED_PERMANENTLY = 301"
definition BAD_GATEWAY :: nat where "BAD_GATEWAY = 502"
definition SWITCHING_PROTOCOLS :: nat where "SWITCHING_PROTOCOLS = 101"
definition NOT_MODIFIED :: nat where "NOT_MODIFIED = 304"
definition OK :: nat where "OK = 200"

lemmas status_defs = TOO_MANY_REQUESTS_def FORBIDDEN_def MOVED_PERMANENTLY_def BAD_GATEWAY_def
  SWITCHING_PROTOCOLS_def NOT_MODIFIED_def OK_def

section \<open>Addresses as text\<close>

text \<open>
  \<^verbatim>\<open>Display\<close> of an IP address: four decimal octets; eight hexadecimal groups with the first
  longest run of at least two zero groups written as a double colon; an IPv4-mapped address with
  its dotted tail.
\<close>

definition hex_char :: "nat \<Rightarrow> char" where
  "hex_char d = (if d < 10 then char_of (48 + d) else char_of (87 + d))"

fun show_hex :: "nat \<Rightarrow> string" where
  "show_hex n = (if n < 16 then [hex_char n] else show_hex (n div 16) @ [hex_char (n mod 16)])"

declare show_hex.simps [simp del]

fun join :: "string \<Rightarrow> string list \<Rightarrow> string" where
  "join sep [] = []"
| "join sep [x] = x"
| "join sep (x # y # xs) = x @ sep @ join sep (y # xs)"

definition show_v4 :: "u32 \<Rightarrow> string" where
  "show_v4 a =
     join ''.'' (map (\<lambda>i. show_nat (unat a div 256 ^ i mod 256)) [3, 2, 1, 0])"

definition v6_segments :: "128 word \<Rightarrow> nat list" where
  "v6_segments a = map (\<lambda>i. unat a div 65536 ^ i mod 65536) [7, 6, 5, 4, 3, 2, 1, 0]"

text \<open>The scan for the longest run of zeros: position, current run, longest run (start, length).\<close>

fun zero_run :: "nat list \<Rightarrow> nat \<Rightarrow> nat \<times> nat \<Rightarrow> nat \<times> nat \<Rightarrow> nat \<times> nat" where
  "zero_run [] i cur best = best"
| "zero_run (s # ss) i (cs, cl) best =
     (if s = 0 then
        let cur = (if cl = 0 then i else cs, cl + 1)
        in zero_run ss (i + 1) cur (if snd cur > snd best then cur else best)
      else zero_run ss (i + 1) (0, 0) best)"

definition show_v6 :: "128 word \<Rightarrow> string" where
  "show_v6 a =
     (let segs = v6_segments a in
      if take 6 segs = [0, 0, 0, 0, 0, 65535] then ''::ffff:'' @ show_v4 (ucast a)
      else let (st, ln) = zero_run segs 0 (0, 0) (0, 0) in
           if 1 < ln then join '':'' (map show_hex (take st segs)) @ ''::''
                          @ join '':'' (map show_hex (drop (st + ln) segs))
           else join '':'' (map show_hex segs))"

definition show_ip :: "ip_addr \<Rightarrow> string" where
  "show_ip ip = (case ip of V4 a \<Rightarrow> show_v4 a | V6 a \<Rightarrow> show_v6 a)"

end
