(* ===== verification/ErrorPages.thy ===== *)
theory ErrorPages
  imports Http
begin

text \<open>The response helpers of \<^verbatim>\<open>src/src/error.rs\<close>.\<close>

definition error_response :: "nat \<Rightarrow> string \<Rightarrow> response" where
  "error_response status message =
     \<lparr>resp_status = status,
      resp_headers =
        header_append ''cache-control'' ''no-store''
          (header_append ''content-type'' ''text/plain; charset=utf-8'' no_headers),
      resp_body = show_nat status @ '' '' @ message @ [newline]\<rparr>"

definition html_error :: "nat \<Rightarrow> string \<Rightarrow> string \<Rightarrow> response" where
  "html_error status title body =
     (let code = show_nat status;
          html =
            ''<!DOCTYPE html>'' @ [newline]
            @ ''<html>'' @ [newline]
            @ ''<head><title>'' @ code @ '' '' @ title @ ''</title>'' @ [newline]
            @ ''<style>body{font-family:sans-serif;text-align:center;padding:4em}h1{font-size:3em}p{color:#666}</style>'' @ [newline]
            @ ''</head>'' @ [newline]
            @ ''<body>'' @ [newline]
            @ ''<h1>'' @ code @ ''</h1>'' @ [newline]
            @ ''<p>'' @ body @ ''</p>'' @ [newline]
            @ ''<hr><small>curf</small>'' @ [newline]
            @ ''</body>'' @ [newline]
            @ ''</html>''
      in \<lparr>resp_status = status,
          resp_headers =
            header_append ''cache-control'' ''no-store''
              (header_append ''content-type'' ''text/html; charset=utf-8'' no_headers),
          resp_body = html\<rparr>)"

lemma error_response_status [simp]: "resp_status (error_response s m) = s"
  by (simp add: error_response_def)

lemma html_error_status [simp]: "resp_status (html_error s t b) = s"
  by (simp add: html_error_def Let_def)

text \<open>No error page may be cached: both helpers set the cache header, once.\<close>

lemma error_response_headers [step_simps]:
  "header_get (resp_headers (error_response s m)) n =
     (if n = ''cache-control'' then Some ''no-store''
      else if n = ''content-type'' then Some ''text/plain; charset=utf-8'' else None)"
  by (simp add: error_response_def)

lemma html_error_headers [step_simps]:
  "header_get (resp_headers (html_error s t b)) n =
     (if n = ''cache-control'' then Some ''no-store''
      else if n = ''content-type'' then Some ''text/html; charset=utf-8'' else None)"
  by (simp add: html_error_def Let_def)

end
