(* ===== verification/Config.thy ===== *)
theory Config
  imports RustStr
begin

text \<open>
  The configuration of \<^verbatim>\<open>src/src/config.rs\<close>: the records the rest of the program reads, the default
  values, and how a parsed YAML document becomes a configuration. The YAML parser is a
  third-party crate; its result is a raw document in which every key is present or absent. What
  the \<^verbatim>\<open>serde\<close> attributes of the source say about absent keys (\<open>default\<close>, \<open>default = "f"\<close>, none
  for a required key) is written out field by field.
\<close>

section \<open>The configuration types\<close>

record security_flags =
  waf_sqli :: bool
  waf_xss :: bool
  waf_path_traversal :: bool
  block_tls_abusers :: bool
  max_tls_failures :: u32
  block_empty_user_agent :: bool

record server_config =
  http_port :: u16
  https_port :: u16
  timeout_secs :: u64
  max_connections :: usize
  max_connections_per_ip :: usize
  rate_limit_rps :: u32
  rate_limit_burst :: u32
  sv_security :: security_flags

datatype load_balance = RoundRobin | LeastConnections | IpHash

record tls_config =
  tls_cert :: string
  tls_key :: string

record static_files_config =
  sf_root :: string
  sf_index :: "string list"
  sf_autoindex :: bool

record health_check_config =
  hc_enabled :: bool
  hc_interval_secs :: u64
  hc_timeout_secs :: u64
  hc_path :: string

record extra_header =
  eh_name :: string
  eh_value :: string

record domain_config =
  dc_backends :: "string list"
  dc_load_balance :: load_balance
  dc_tls :: "tls_config option"
  dc_static_files :: "static_files_config option"
  dc_redirect_to_https :: bool
  dc_health_check :: health_check_config
  dc_headers :: "extra_header list"

text \<open>\<^verbatim>\<open>domains\<close> is a hash map: its entries in iteration order, the keys distinct.\<close>

record config =
  cfg_server :: server_config
  cfg_domains :: "(string \<times> domain_config) list"

section \<open>Default values\<close>

definition default_http_port :: u16 where "default_http_port = 80"
definition default_https_port :: u16 where "default_https_port = 443"
definition default_timeout :: u64 where "default_timeout = 30"
definition default_max_connections :: usize where "default_max_connections = 10000"
definition default_max_connections_per_ip :: usize where "default_max_connections_per_ip = 100"
definition default_rps :: u32 where "default_rps = 100"
definition default_burst :: u32 where "default_burst = 200"
definition default_true :: bool where "default_true = True"
definition default_false :: bool where "default_false = False"
definition default_tls_failures :: u32 where "default_tls_failures = 10"
definition default_hc_interval :: u64 where "default_hc_interval = 15"
definition default_hc_timeout :: u64 where "default_hc_timeout = 5"
definition default_hc_path :: string where "default_hc_path = ''/''"
definition default_index_files :: "string list" where "default_index_files = [''index.html'']"

lemmas default_defs = default_http_port_def default_https_port_def default_timeout_def
  default_max_connections_def default_max_connections_per_ip_def default_rps_def
  default_burst_def default_true_def default_false_def default_tls_failures_def
  default_hc_interval_def default_hc_timeout_def default_hc_path_def default_index_files_def

text \<open>The three hand-written \<^verbatim>\<open>impl Default\<close> blocks, and the derived one.\<close>

definition security_flags_default :: security_flags where
  "security_flags_default =
     \<lparr>waf_sqli = True, waf_xss = True, waf_path_traversal = True, block_tls_abusers = True,
      max_tls_failures = default_tls_failures, block_empty_user_agent = False\<rparr>"

definition server_config_default :: server_config where
  "server_config_default =
     \<lparr>http_port = default_http_port, https_port = default_https_port,
      timeout_secs = default_timeout, max_connections = default_max_connections,
      max_connections_per_ip = default_max_connections_per_ip,
      rate_limit_rps = default_rps, rate_limit_burst = default_burst,
      sv_security = security_flags_default\<rparr>"

definition health_check_default :: health_check_config where
  "health_check_default =
     \<lparr>hc_enabled = True, hc_interval_secs = default_hc_interval,
      hc_timeout_secs = default_hc_timeout, hc_path = default_hc_path\<rparr>"

instantiation load_balance :: default
begin

definition default_load_balance :: load_balance where
  "default_load_balance = RoundRobin"

instance ..

end

section \<open>From a parsed document to a configuration\<close>

record raw_flags =
  raw_waf_sqli :: "bool option"
  raw_waf_xss :: "bool option"
  raw_waf_path_traversal :: "bool option"
  raw_block_tls_abusers :: "bool option"
  raw_max_tls_failures :: "u32 option"
  raw_block_empty_user_agent :: "bool option"

record raw_server =
  raw_http_port :: "u16 option"
  raw_https_port :: "u16 option"
  raw_timeout_secs :: "u64 option"
  raw_max_connections :: "usize option"
  raw_max_connections_per_ip :: "usize option"
  raw_rate_limit_rps :: "u32 option"
  raw_rate_limit_burst :: "u32 option"
  raw_security :: "raw_flags option"

record raw_tls =
  raw_cert :: "string option"
  raw_key :: "string option"

record raw_static =
  raw_root :: "string option"
  raw_index :: "string list option"
  raw_autoindex :: "bool option"

record raw_health =
  raw_enabled :: "bool option"
  raw_interval_secs :: "u64 option"
  raw_hc_timeout_secs :: "u64 option"
  raw_path :: "string option"

record raw_header =
  raw_name :: "string option"
  raw_value :: "string option"

record raw_domain =
  raw_backends :: "string list option"
  raw_load_balance :: "string option"
  raw_tls_cfg :: "raw_tls option"
  raw_static_files :: "raw_static option"
  raw_redirect_to_https :: "bool option"
  raw_health_check :: "raw_health option"
  raw_headers :: "raw_header list option"

record raw_config =
  raw_server_cfg :: "raw_server option"
  raw_domains :: "(string \<times> raw_domain) list option"

datatype de_error = MissingField string | UnknownVariant string

definition or_default :: "'a \<Rightarrow> 'a option \<Rightarrow> 'a" where
  "or_default d x = (case x of None \<Rightarrow> d | Some v \<Rightarrow> v)"

definition required :: "string \<Rightarrow> 'a option \<Rightarrow> de_error + 'a" where
  "required name x = (case x of None \<Rightarrow> Inl (MissingField name) | Some v \<Rightarrow> Inr v)"

lemma or_default_simps [simp]: "or_default d None = d" "or_default d (Some v) = v"
  by (simp_all add: or_default_def)

text \<open>The bind of \<^verbatim>\<open>Result\<close>: what \<^verbatim>\<open>?\<close> does.\<close>

definition and_then :: "'e + 'a \<Rightarrow> ('a \<Rightarrow> 'e + 'b) \<Rightarrow> 'e + 'b" where
  "and_then r f = (case r of Inl e \<Rightarrow> Inl e | Inr a \<Rightarrow> f a)"

lemma and_then_simps [simp]: "and_then (Inl e) f = Inl e" "and_then (Inr a) f = f a"
  by (simp_all add: and_then_def)

lemma and_then_Inr_iff: "and_then r f = Inr b \<longleftrightarrow> (\<exists>a. r = Inr a \<and> f a = Inr b)"
  by (cases r) auto

text \<open>Optional and repeated values: the first error stops the parse.\<close>

fun traverse_opt :: "('a \<Rightarrow> 'e + 'b) \<Rightarrow> 'a option \<Rightarrow> 'e + 'b option" where
  "traverse_opt f None = Inr None"
| "traverse_opt f (Some a) = and_then (f a) (\<lambda>b. Inr (Some b))"

fun traverse :: "('a \<Rightarrow> 'e + 'b) \<Rightarrow> 'a list \<Rightarrow> 'e + 'b list" where
  "traverse f [] = Inr []"
| "traverse f (a # as) = and_then (f a) (\<lambda>b. and_then (traverse f as) (\<lambda>bs. Inr (b # bs)))"

definition security_flags_of :: "raw_flags \<Rightarrow> security_flags" where
  "security_flags_of r =
     \<lparr>waf_sqli = or_default default_true (raw_waf_sqli r),
      waf_xss = or_default default_true (raw_waf_xss r),
      waf_path_traversal = or_default default_true (raw_waf_path_traversal r),
      block_tls_abusers = or_default default_true (raw_block_tls_abusers r),
      max_tls_failures = or_default default_tls_failures (raw_max_tls_failures r),
      block_empty_user_agent = or_default default_false (raw_block_empty_user_agent r)\<rparr>"

definition server_config_of :: "raw_server \<Rightarrow> server_config" where
  "server_config_of r =
     \<lparr>http_port = or_default default_http_port (raw_http_port r),
      https_port = or_default default_https_port (raw_https_port r),
      timeout_secs = or_default default_timeout (raw_timeout_secs r),
      max_connections = or_default default_max_connections (raw_max_connections r),
      max_connections_per_ip =
        or_default default_max_connections_per_ip (raw_max_connections_per_ip r),
      rate_limit_rps = or_default default_rps (raw_rate_limit_rps r),
      rate_limit_burst = or_default default_burst (raw_rate_limit_burst r),
      sv_security =
        or_default security_flags_default (map_option security_flags_of (raw_security r))\<rparr>"

text \<open>\<open>rename_all = "snake_case"\<close>: the names of the strategies in the file.\<close>

definition load_balance_of :: "string \<Rightarrow> de_error + load_balance" where
  "load_balance_of s =
     (if s = ''round_robin'' then Inr RoundRobin
      else if s = ''least_connections'' then Inr LeastConnections
      else if s = ''ip_hash'' then Inr IpHash
      else Inl (UnknownVariant s))"

fun load_balance_name :: "load_balance \<Rightarrow> string" where
  "load_balance_name RoundRobin = ''round_robin''"
| "load_balance_name LeastConnections = ''least_connections''"
| "load_balance_name IpHash = ''ip_hash''"

definition tls_config_of :: "raw_tls \<Rightarrow> de_error + tls_config" where
  "tls_config_of r =
     and_then (required ''cert'' (raw_cert r)) (\<lambda>c.
     and_then (required ''key'' (raw_key r)) (\<lambda>k. Inr \<lparr>tls_cert = c, tls_key = k\<rparr>))"

definition static_files_of :: "raw_static \<Rightarrow> de_error + static_files_config" where
  "static_files_of r =
     and_then (required ''root'' (raw_root r)) (\<lambda>root.
     Inr \<lparr>sf_root = root, sf_index = or_default default_index_files (raw_index r),
          sf_autoindex = or_default False (raw_autoindex r)\<rparr>)"

definition health_check_of :: "raw_health \<Rightarrow> health_check_config" where
  "health_check_of r =
     \<lparr>hc_enabled = or_default default_true (raw_enabled r),
      hc_interval_secs = or_default default_hc_interval (raw_interval_secs r),
      hc_timeout_secs = or_default default_hc_timeout (raw_hc_timeout_secs r),
      hc_path = or_default default_hc_path (raw_path r)\<rparr>"

definition extra_header_of :: "raw_header \<Rightarrow> de_error + extra_header" where
  "extra_header_of r =
     and_then (required ''name'' (raw_name r)) (\<lambda>n.
     and_then (required ''value'' (raw_value r)) (\<lambda>v. Inr \<lparr>eh_name = n, eh_value = v\<rparr>))"

definition domain_config_of :: "raw_domain \<Rightarrow> de_error + domain_config" where
  "domain_config_of r =
     and_then (traverse_opt load_balance_of (raw_load_balance r)) (\<lambda>lb.
     and_then (traverse_opt tls_config_of (raw_tls_cfg r)) (\<lambda>tls.
     and_then (traverse_opt static_files_of (raw_static_files r)) (\<lambda>sf.
     and_then (traverse extra_header_of (or_default [] (raw_headers r))) (\<lambda>hs.
     Inr \<lparr>dc_backends = or_default [] (raw_backends r),
          dc_load_balance = or_default default lb,
          dc_tls = tls, dc_static_files = sf,
          dc_redirect_to_https = or_default False (raw_redirect_to_https r),
          dc_health_check =
            or_default health_check_default (map_option health_check_of (raw_health_check r)),
          dc_headers = hs\<rparr>))))"

definition config_of :: "raw_config \<Rightarrow> de_error + config" where
  "config_of r =
     and_then (required ''domains'' (raw_domains r)) (\<lambda>ds.
     and_then (traverse (\<lambda>(n, d). and_then (domain_config_of d) (\<lambda>c. Inr (n, c))) ds) (\<lambda>cs.
     Inr \<lparr>cfg_server = or_default server_config_default
            (map_option server_config_of (raw_server_cfg r)),
          cfg_domains = cs\<rparr>))"

text \<open>
  \<^verbatim>\<open>Config::load\<close>. Reading the file and parsing YAML are arguments: \<open>read_file\<close> returns the
  text of the file, \<open>yaml\<close> the raw document, or nothing.
\<close>

datatype load_error = CannotRead string | CannotParse string

definition config_load ::
    "(string \<Rightarrow> string option) \<Rightarrow> (string \<Rightarrow> raw_config option) \<Rightarrow> string \<Rightarrow> load_error + config" where
  "config_load read_file yaml path =
     (case read_file path of
        None \<Rightarrow> Inl (CannotRead path)
      | Some raw \<Rightarrow>
          (case yaml raw of
             None \<Rightarrow> Inl (CannotParse path)
           | Some doc \<Rightarrow>
               (case config_of doc of Inl e \<Rightarrow> Inl (CannotParse path) | Inr c \<Rightarrow> Inr c)))"

section \<open>Properties\<close>

definition no_flags :: raw_flags where
  "no_flags =
     \<lparr>raw_waf_sqli = None, raw_waf_xss = None, raw_waf_path_traversal = None,
      raw_block_tls_abusers = None, raw_max_tls_failures = None, raw_block_empty_user_agent = None\<rparr>"

definition no_server :: raw_server where
  "no_server =
     \<lparr>raw_http_port = None, raw_https_port = None, raw_timeout_secs = None,
      raw_max_connections = None, raw_max_connections_per_ip = None, raw_rate_limit_rps = None,
      raw_rate_limit_burst = None, raw_security = None\<rparr>"

definition no_health :: raw_health where
  "no_health = \<lparr>raw_enabled = None, raw_interval_secs = None, raw_hc_timeout_secs = None, raw_path = None\<rparr>"

definition bare_domain :: raw_domain where
  "bare_domain =
     \<lparr>raw_backends = None, raw_load_balance = None, raw_tls_cfg = None, raw_static_files = None,
      raw_redirect_to_https = None, raw_health_check = None, raw_headers = None\<rparr>"

text \<open>
  Leaving things out is safe at every level: an absent block, an empty block and a block
  whose nested block is empty all give the same configuration, the documented defaults (ports 80
  and 443, 30 seconds, 10000 connections, 100 per address, 100 requests per second with burst
  200, health checks every 15 seconds with limit 5); a bare domain is round robin with no
  backends, TLS, files, redirect or headers. The two ways the source states the defaults (the
  field attributes and the hand-written \<^verbatim>\<open>Default\<close> blocks) agree.
\<close>

theorem defaults_agree:
  "security_flags_of no_flags = security_flags_default \<and>
   server_config_of no_server = server_config_default \<and>
   server_config_of (no_server\<lparr>raw_security := Some no_flags\<rparr>) = server_config_default \<and>
   health_check_of no_health = health_check_default \<and>
   (http_port server_config_default, https_port server_config_default, timeout_secs server_config_default,
    max_connections server_config_default, max_connections_per_ip server_config_default,
    rate_limit_rps server_config_default, rate_limit_burst server_config_default)
     = (80, 443, 30, 10000, 100, 100, 200) \<and>
   (hc_enabled health_check_default, hc_interval_secs health_check_default,
    hc_timeout_secs health_check_default, hc_path health_check_default) = (True, 15, 5, ''/'') \<and>
   (\<forall>d. map (\<lambda>sv. config_of \<lparr>raw_server_cfg = sv, raw_domains = Some [(d, bare_domain)]\<rparr>)
       [None, Some no_server] =
     replicate 2 (Inr \<lparr>cfg_server = server_config_default,
       cfg_domains = [(d, \<lparr>dc_backends = [], dc_load_balance = RoundRobin, dc_tls = None,
         dc_static_files = None, dc_redirect_to_https = False,
         dc_health_check = health_check_default, dc_headers = []\<rparr>)]\<rparr>)) \<and>
   (\<forall>lb. load_balance_of (load_balance_name lb) = Inr lb)"
proof (intro conjI allI)
  fix d
  have "server_config_of no_server = server_config_default"
    by (simp add: server_config_of_def no_server_def server_config_default_def)
  then show "map (\<lambda>sv. config_of \<lparr>raw_server_cfg = sv, raw_domains = Some [(d, bare_domain)]\<rparr>)
       [None, Some no_server] =
     replicate 2 (Inr \<lparr>cfg_server = server_config_default,
       cfg_domains = [(d, \<lparr>dc_backends = [], dc_load_balance = RoundRobin, dc_tls = None,
         dc_static_files = None, dc_redirect_to_https = False,
         dc_health_check = health_check_default, dc_headers = []\<rparr>)]\<rparr>)"
    by (simp add: config_of_def domain_config_of_def bare_domain_def required_def
        default_load_balance_def numeral_2_eq_2)
next
  fix lb
  show "load_balance_of (load_balance_name lb) = Inr lb" by (cases lb) (simp_all add: load_balance_of_def)
qed (simp_all add: security_flags_of_def no_flags_def security_flags_default_def server_config_of_def
    no_server_def server_config_default_def health_check_of_def no_health_def health_check_default_def
    default_defs)

end
