(* ===== verification/RateLimit.thy ===== *)
theory RateLimit
  imports RustFloat
begin

text \<open>
  The token-bucket limiter of \<^verbatim>\<open>src/src/rate_limit.rs\<close>. Tokens, rate and burst are \<^verbatim>\<open>f64\<close>
  (rationals, each operation rounded by \<^const>\<open>rnd64\<close>); an \<^verbatim>\<open>Instant\<close> is its nanosecond count on
  the monotonic clock; the \<^verbatim>\<open>DashMap\<close> of buckets is a map, and the entry guard that
  \<^verbatim>\<open>is_allowed\<close> holds from lookup to update makes one call one atomic step.
\<close>

record bucket =
  tokens :: rat
  last_refill :: nat

record rate_limiter =
  rl_rps :: rat
  rl_burst :: rat
  buckets :: "ip_addr \<rightharpoonup> bucket"

text \<open>\<^verbatim>\<open>u32 as f64\<close> is exact.\<close>

definition u32_as_f64 :: "u32 \<Rightarrow> rat" where
  "u32_as_f64 w = of_nat (unat w)"

definition rate_limiter_new :: "u32 \<Rightarrow> u32 \<Rightarrow> rate_limiter" where
  "rate_limiter_new rps burst =
     \<lparr>rl_rps = u32_as_f64 rps, rl_burst = u32_as_f64 burst, buckets = Map.empty\<rparr>"

text \<open>The refill of one bucket: lines 49 to 52 of the source.\<close>

definition refill :: "rate_limiter \<Rightarrow> nat \<Rightarrow> bucket \<Rightarrow> bucket" where
  "refill rl now b =
     (let elapsed = as_secs_f64 (duration_since now (last_refill b))
      in b\<lparr>tokens := min (rnd64 (tokens b + rnd64 (elapsed * rl_rps rl))) (rl_burst rl),
           last_refill := now\<rparr>)"

definition is_allowed :: "rate_limiter \<Rightarrow> ip_addr \<Rightarrow> nat \<Rightarrow> bool \<times> rate_limiter" where
  "is_allowed rl ip now =
     (if rl_rps rl = 0 then (True, rl)
      else
        let b = (case buckets rl ip of
                   Some b \<Rightarrow> b
                 | None \<Rightarrow> \<lparr>tokens = rl_burst rl, last_refill = now\<rparr>);
            b = refill rl now b
        in if 1 \<le> tokens b
           then (True, rl\<lparr>buckets := (buckets rl)(ip \<mapsto> b\<lparr>tokens := rnd64 (tokens b - 1)\<rparr>)\<rparr>)
           else (False, rl\<lparr>buckets := (buckets rl)(ip \<mapsto> b)\<rparr>))"

section \<open>Frame and invariant\<close>

text \<open>
  A limiter as \<^const>\<open>rate_limiter_new\<close> makes it and calls leave it: the rate and the burst are
  32-bit integers, and no bucket holds a negative number of tokens or more than the burst.
\<close>

definition wf_limiter :: "rate_limiter \<Rightarrow> bool" where
  "wf_limiter rl \<longleftrightarrow>
     (\<exists>r < 2 ^ 32. rl_rps rl = of_nat r) \<and> (\<exists>n < 2 ^ 32. rl_burst rl = of_nat n)
     \<and> (\<forall>b \<in> ran (buckets rl). 0 \<le> tokens b \<and> tokens b \<le> rl_burst rl)"

text \<open>The bucket a call works on, before its refill.\<close>

definition bucket_of :: "rate_limiter \<Rightarrow> ip_addr \<Rightarrow> nat \<Rightarrow> bucket" where
  "bucket_of rl ip now =
     (case buckets rl ip of Some b \<Rightarrow> b | None \<Rightarrow> \<lparr>tokens = rl_burst rl, last_refill = now\<rparr>)"

lemma refill_last [simp]: "last_refill (refill rl now b) = now"
  by (simp add: refill_def Let_def)

lemma is_allowed_config [frame_simps]:
  "rl_rps (snd (is_allowed rl ip now)) = rl_rps rl"
  "rl_burst (snd (is_allowed rl ip now)) = rl_burst rl"
  by (simp_all add: is_allowed_def Let_def split: option.splits)

lemma is_allowed_other [frame_simps]:
  "ip' \<noteq> ip \<Longrightarrow> buckets (snd (is_allowed rl ip now)) ip' = buckets rl ip'"
  by (simp add: is_allowed_def Let_def split: option.splits)

lemma is_allowed_iff [step_simps]:
  "fst (is_allowed rl ip now) \<longleftrightarrow>
     rl_rps rl = 0 \<or> 1 \<le> tokens (refill rl now (bucket_of rl ip now))"
  by (simp add: is_allowed_def bucket_of_def Let_def)

lemma is_allowed_bucket [step_simps]:
  "rl_rps rl \<noteq> 0 \<Longrightarrow>
   buckets (snd (is_allowed rl ip now)) ip =
     Some (let b = refill rl now (bucket_of rl ip now)
           in if 1 \<le> tokens b then b\<lparr>tokens := rnd64 (tokens b - 1)\<rparr> else b)"
  by (simp add: is_allowed_def bucket_of_def Let_def)

lemma is_allowed_off [step_simps]: "rl_rps rl = 0 \<Longrightarrow> is_allowed rl ip now = (True, rl)"
  by (simp add: is_allowed_def)

lemma wf_limiter_burst:
  assumes "wf_limiter rl"
  obtains n where "rl_burst rl = of_nat n" and "n < 2 ^ 32"
  using assms by (auto simp: wf_limiter_def)

lemma wf_limiter_rps_nonneg: "wf_limiter rl \<Longrightarrow> 0 \<le> rl_rps rl"
  by (auto simp: wf_limiter_def)

lemma wf_limiter_burst_nonneg: "wf_limiter rl \<Longrightarrow> 0 \<le> rl_burst rl"
  by (auto simp: wf_limiter_def)

lemma bucket_of_range:
  assumes "wf_limiter rl"
  shows "0 \<le> tokens (bucket_of rl ip now)" and "tokens (bucket_of rl ip now) \<le> rl_burst rl"
  using assms
  by (auto simp: bucket_of_def wf_limiter_def ran_def split: option.splits)

lemma wf_limiter_new: "wf_limiter (rate_limiter_new rps burst)"
proof -
  have "unat rps < 2 ^ 32" and "unat burst < 2 ^ 32"
    using unsigned_less [of rps] unsigned_less [of burst] by simp_all
  then show ?thesis
    by (auto simp: wf_limiter_def rate_limiter_new_def u32_as_f64_def)
qed

lemma refill_nonneg:
  assumes "0 \<le> tokens b" and "0 \<le> rl_rps rl" and "0 \<le> rl_burst rl"
  shows "0 \<le> tokens (refill rl now b)"
  using assms as_secs_f64_nonneg
  by (auto simp: refill_def Let_def intro!: r64.nonneg add_nonneg_nonneg mult_nonneg_nonneg)

lemma refill_le_burst: "tokens (refill rl now b) \<le> rl_burst rl"
  by (simp add: refill_def Let_def)

text \<open>Taking a token from at least one leaves a value between zero and the burst.\<close>

lemma take_token_range:
  assumes "wf_limiter rl" and "1 \<le> t" and "t \<le> rl_burst rl"
  shows "0 \<le> rnd64 (t - 1)" and "rnd64 (t - 1) \<le> rl_burst rl"
proof -
  obtain n where n: "rl_burst rl = of_nat n" "n < 2 ^ 32" by (rule wf_limiter_burst [OF assms(1)])
  show "0 \<le> rnd64 (t - 1)" using assms by (intro r64.nonneg) simp
  show "rnd64 (t - 1) \<le> rl_burst rl"
    using assms n by (auto intro: r64.le_nat [of n])
qed

lemma ran_upd_cases: "b \<in> ran (m(k \<mapsto> v)) \<Longrightarrow> b = v \<or> b \<in> ran m"
  by (auto simp: ran_def split: if_splits)

lemma wf_is_allowed [inv_intros]:
  assumes wf: "wf_limiter rl"
  shows "wf_limiter (snd (is_allowed rl ip now))"
proof (cases "rl_rps rl = 0")
  case True
  with wf show ?thesis by (simp add: is_allowed_def)
next
  case False
  define b where "b = refill rl now (bucket_of rl ip now)"
  define b' where "b' = (if 1 \<le> tokens b then b\<lparr>tokens := rnd64 (tokens b - 1)\<rparr> else b)"
  have b: "0 \<le> tokens b" "tokens b \<le> rl_burst rl"
    unfolding b_def using bucket_of_range [OF wf] wf_limiter_rps_nonneg [OF wf]
      wf_limiter_burst_nonneg [OF wf]
    by (auto intro: refill_nonneg refill_le_burst)
  then have b': "0 \<le> tokens b'" "tokens b' \<le> rl_burst rl"
    using take_token_range [OF wf, of "tokens b"] by (auto simp: b'_def)
  have "snd (is_allowed rl ip now) = rl\<lparr>buckets := (buckets rl)(ip \<mapsto> b')\<rparr>"
    using False by (simp add: is_allowed_def b'_def b_def bucket_of_def Let_def)
  then show ?thesis
    using wf b' by (auto simp: wf_limiter_def dest!: ran_upd_cases)
qed

section \<open>A sequence of requests\<close>

text \<open>The decisions on a sequence of calls, oldest first, and the limiter they leave.\<close>

fun decide_all :: "rate_limiter \<Rightarrow> (ip_addr \<times> nat) list \<Rightarrow> bool list \<times> rate_limiter" where
  "decide_all rl [] = ([], rl)"
| "decide_all rl ((ip, now) # rs) =
     (let (ok, rl1) = is_allowed rl ip now; (oks, rl2) = decide_all rl1 rs
      in (ok # oks, rl2))"

definition allowed_count :: "rate_limiter \<Rightarrow> ip_addr \<Rightarrow> nat list \<Rightarrow> nat" where
  "allowed_count rl ip ts = length (filter id (fst (decide_all rl (map (Pair ip) ts))))"

lemma allowed_count_Nil [simp]: "allowed_count rl ip [] = 0"
  by (simp add: allowed_count_def)

lemma allowed_count_Cons [simp]:
  "allowed_count rl ip (t # ts) =
     (if fst (is_allowed rl ip t) then 1 else 0) + allowed_count (snd (is_allowed rl ip t)) ip ts"
  by (simp add: allowed_count_def Let_def split: prod.splits)

lemma decide_all_config [frame_simps]:
  "rl_rps (snd (decide_all rl rs)) = rl_rps rl" "rl_burst (snd (decide_all rl rs)) = rl_burst rl"
proof (induction rl rs rule: decide_all.induct)
  case (2 rl ip now rs)
  {
    case 1
    show ?case using "2.IH"(1) is_allowed_config(1) [of rl ip now]
      by (cases "is_allowed rl ip now") (auto simp: Let_def split: prod.splits)
  next
    case 2
    show ?case using "2.IH"(2) is_allowed_config(2) [of rl ip now]
      by (cases "is_allowed rl ip now") (auto simp: Let_def split: prod.splits)
  }
qed simp_all

lemma wf_decide_all [inv_intros]: "wf_limiter rl \<Longrightarrow> wf_limiter (snd (decide_all rl rs))"
proof (induction rl rs rule: decide_all.induct)
  case (2 rl ip now rs)
  then show ?case
    using wf_is_allowed [of rl ip now] by (auto simp: Let_def split: prod.splits)
qed simp

section \<open>How many requests get through\<close>

lemma refill_upper:
  assumes wf: "wf_limiter rl" and nn: "0 \<le> tokens b"
  shows "tokens (refill rl now b)
    \<le> tokens b + of_nat (now - last_refill b) / 1000000000 * rl_rps rl
       + rl_burst rl * ((1 + 1 / 2 ^ 53) ^ 4 - 1)" (is "?t \<le> tokens b + ?x + _")
proof -
  let ?u = "1 / 2 ^ 53 :: rat"
  let ?s = "tokens b + ?x"
  let ?d = "duration_since now (last_refill b)"
  have rps: "0 \<le> rl_rps rl" by (rule wf_limiter_rps_nonneg [OF wf])
  have burst: "0 \<le> rl_burst rl" by (rule wf_limiter_burst_nonneg [OF wf])
  have x: "0 \<le> ?x" using rps by simp
  have g: "0 \<le> (1 + ?u) ^ 4 - 1" using r64.pow_ge_1 [of 4] by simp
  have "as_secs_f64 ?d * rl_rps rl \<le> ?x * (1 + ?u) ^ 2"
    using mult_right_mono [OF as_secs_f64_upper [of ?d] rps]
    by (simp add: duration_since_def mult_ac)
  then have "rnd64 (as_secs_f64 ?d * rl_rps rl) \<le> ?x * (1 + ?u) ^ Suc 2"
    using rps as_secs_f64_nonneg by (intro r64.err_pow) auto
  moreover have "tokens b \<le> tokens b * (1 + ?u) ^ Suc 2" by (rule r64.le_pow [OF nn])
  ultimately have "tokens b + rnd64 (as_secs_f64 ?d * rl_rps rl) \<le> ?s * (1 + ?u) ^ Suc 2"
    by (simp only: distrib_right)
  then have up: "rnd64 (tokens b + rnd64 (as_secs_f64 ?d * rl_rps rl)) \<le> ?s * (1 + ?u) ^ Suc (Suc 2)"
    using rps as_secs_f64_nonneg nn
    by (intro r64.err_pow add_nonneg_nonneg r64.nonneg mult_nonneg_nonneg) auto
  show ?thesis
  proof (cases "rl_burst rl \<le> ?s")
    case True
    moreover have "0 \<le> rl_burst rl * ((1 + ?u) ^ 4 - 1)" using burst g by (rule mult_nonneg_nonneg)
    ultimately show ?thesis using refill_le_burst [of rl now b] by linarith
  next
    case False
    have "?t \<le> ?s * (1 + ?u) ^ 4"
      using up by (simp add: refill_def Let_def numeral_eq_Suc)
    also have "\<dots> = ?s + ?s * ((1 + ?u) ^ 4 - 1)" by (simp add: algebra_simps)
    also have "?s * ((1 + ?u) ^ 4 - 1) \<le> rl_burst rl * ((1 + ?u) ^ 4 - 1)"
      using False g by (intro mult_right_mono) auto
    finally show ?thesis by simp
  qed
qed

text \<open>
  The rounding slack of one call: five roundings of a value of at most the burst.
\<close>

definition slack :: "rate_limiter \<Rightarrow> rat" where
  "slack rl = rl_burst rl * ((1 + 1 / 2 ^ 53) ^ 5 - 1)"

lemma slack_split:
  assumes "0 \<le> rl_burst rl"
  shows "rl_burst rl * ((1 + 1 / 2 ^ 53) ^ 4 - 1) + rl_burst rl / 2 ^ 53 \<le> slack rl"
proof -
  have "(1 + 1 / 2 ^ 53 :: rat) ^ 4 - 1 + 1 / 2 ^ 53 \<le> (1 + 1 / 2 ^ 53) ^ 5 - 1"
    by (simp add: power_divide)
  from mult_left_mono [OF this assms] show ?thesis by (simp add: slack_def algebra_simps)
qed

lemma slack_nonneg: "0 \<le> rl_burst rl \<Longrightarrow> 0 \<le> slack rl"
  unfolding slack_def using r64.pow_ge_1 [of 5] by (intro mult_nonneg_nonneg) auto

lemma slack_frame [simp]: "slack (snd (is_allowed rl ip now)) = slack rl"
  by (simp add: slack_def frame_simps)

text \<open>One call: what it grants plus what it leaves is at most what the refilled bucket held.\<close>

lemma grant_upper:
  assumes wf: "wf_limiter rl" and rps: "rl_rps rl \<noteq> 0"
  obtains b where "buckets (snd (is_allowed rl ip now)) ip = Some b" and "last_refill b = now"
    and "0 \<le> tokens b"
    and "(if fst (is_allowed rl ip now) then 1 else 0) + tokens b
           \<le> tokens (refill rl now (bucket_of rl ip now)) + rl_burst rl / 2 ^ 53"
proof -
  let ?b = "refill rl now (bucket_of rl ip now)"
  define b where "b = (if 1 \<le> tokens ?b then ?b\<lparr>tokens := rnd64 (tokens ?b - 1)\<rparr> else ?b)"
  have burst: "0 \<le> rl_burst rl" by (rule wf_limiter_burst_nonneg [OF wf])
  have nn: "0 \<le> tokens ?b" and le: "tokens ?b \<le> rl_burst rl"
    using bucket_of_range [OF wf] wf_limiter_rps_nonneg [OF wf] burst
    by (auto intro: refill_nonneg refill_le_burst)
  have "tokens b \<le> (tokens ?b - 1) * (1 + 1 / 2 ^ 53)" if "1 \<le> tokens ?b"
    using that r64.err [of "tokens ?b - 1"] by (simp add: b_def)
  then have grant: "1 + tokens b \<le> tokens ?b + rl_burst rl / 2 ^ 53" if "1 \<le> tokens ?b"
    using that le by (simp add: field_simps)
  show thesis
  proof (rule that)
    show "buckets (snd (is_allowed rl ip now)) ip = Some b"
      using rps by (simp add: is_allowed_bucket b_def Let_def)
    show "last_refill b = now" by (simp add: b_def)
    show "0 \<le> tokens b"
      using nn r64.nonneg [of "tokens ?b - 1"] by (simp add: b_def)
    show "(if fst (is_allowed rl ip now) then 1 else 0) + tokens b \<le> tokens ?b + rl_burst rl / 2 ^ 53"
      using grant burst rps by (auto simp: is_allowed_iff b_def)
  qed
qed

lemma add_up:
  fixes g a t p q r s l x b y :: rat
  assumes "a \<le> t + q + l" and "r + y \<le> b + p + s" and "p + q = x" and "g + t \<le> r + y"
  shows "g + a \<le> b + x + (s + l)"
  using assms by linarith

lemma allowed_count_bound:
  assumes "wf_limiter rl" and "rl_rps rl \<noteq> 0" and "buckets rl ip = Some b" and "0 \<le> tokens b"
    and "sorted (last_refill b # ts)"
  shows "of_nat (allowed_count rl ip ts)
    \<le> tokens b + of_nat (last (last_refill b # ts) - last_refill b) / 1000000000 * rl_rps rl
       + of_nat (length ts) * slack rl"
  using assms
proof (induction ts arbitrary: rl b)
  case (Cons t ts)
  note wf = Cons.prems(1) and rps = Cons.prems(2)
  have burst: "0 \<le> rl_burst rl" by (rule wf_limiter_burst_nonneg [OF wf])
  let ?rl = "snd (is_allowed rl ip t)"
  let ?g = "if fst (is_allowed rl ip t) then 1 else 0 :: rat"
  have b: "bucket_of rl ip t = b" using Cons.prems(3) by (simp add: bucket_of_def)
  obtain b' where b': "buckets ?rl ip = Some b'" "last_refill b' = t" "0 \<le> tokens b'"
    and g: "?g + tokens b' \<le> tokens (refill rl t b) + rl_burst rl / 2 ^ 53"
    using grant_upper [OF wf rps, of ip t] unfolding b by blast
  have "of_nat (allowed_count ?rl ip ts)
      \<le> tokens b' + of_nat (last (t # ts) - t) / 1000000000 * rl_rps rl + of_nat (length ts) * slack rl"
    using Cons.IH [of ?rl b'] b' Cons.prems wf_is_allowed [OF wf] by (simp add: frame_simps)
  moreover have "tokens (refill rl t b) + rl_burst rl / 2 ^ 53
      \<le> tokens b + of_nat (t - last_refill b) / 1000000000 * rl_rps rl + slack rl"
    using refill_upper [OF wf Cons.prems(4), of t] slack_split [OF burst] by linarith
  moreover have "of_nat (t - last_refill b) / 1000000000 * rl_rps rl
      + of_nat (last (t # ts) - t) / 1000000000 * rl_rps rl
      = of_nat (last (t # ts) - last_refill b) / 1000000000 * rl_rps rl"
  proof -
    have "t \<le> last (t # ts)" using Cons.prems(5) by (cases ts rule: rev_cases) auto
    moreover have "last_refill b \<le> t" using Cons.prems(5) by simp
    ultimately have "last (t # ts) - last_refill b = (t - last_refill b) + (last (t # ts) - t)" by simp
    then show ?thesis by (simp add: add_divide_distrib distrib_right)
  qed
  ultimately have "?g + of_nat (allowed_count ?rl ip ts)
      \<le> tokens b + of_nat (last (t # ts) - last_refill b) / 1000000000 * rl_rps rl
         + (slack rl + of_nat (length ts) * slack rl)"
    using g by (intro add_up)
  moreover have "of_nat (allowed_count rl ip (t # ts)) = ?g + of_nat (allowed_count ?rl ip ts)" by simp
  moreover have "of_nat (length (t # ts)) * slack rl = slack rl + of_nat (length ts) * slack rl"
    by (simp add: distrib_right)
  moreover have "last (last_refill b # t # ts) = last (t # ts)" by simp
  ultimately show ?case by simp
qed simp

text \<open>
  A bucket that holds at least \<open>k\<close> tokens grants the next \<open>k\<close> requests of the same instant.
\<close>

lemma same_instant_grants:
  assumes "wf_limiter rl" and "rl_rps rl \<noteq> 0" and "k < 2 ^ 53"
    and "of_nat k \<le> tokens (refill rl now (bucket_of rl ip now))"
  shows "allowed_count rl ip (replicate k now) = k"
  using assms
proof (induction k arbitrary: rl)
  case (Suc k)
  let ?b = "refill rl now (bucket_of rl ip now)"
  let ?rl = "snd (is_allowed rl ip now)"
  have one: "1 \<le> tokens ?b" using Suc.prems(4) by simp
  have rps: "rl_rps ?rl \<noteq> 0" using Suc.prems(2) by (simp add: frame_simps)
  have b': "bucket_of ?rl ip now = ?b\<lparr>tokens := rnd64 (tokens ?b - 1)\<rparr>"
    using Suc.prems(2) one by (auto simp: bucket_of_def [of ?rl] is_allowed_bucket Let_def)
  have k: "of_nat k \<le> rnd64 (tokens ?b - 1)"
    using Suc.prems(3,4) by (intro r64.ge_nat) auto
  have "of_nat k \<le> rl_burst rl" using Suc.prems(4) refill_le_burst [of rl now "bucket_of rl ip now"] by simp
  moreover have "of_nat k \<le> rnd64 (rnd64 (tokens ?b - 1))"
    by (rule r64.ge_nat [OF _ k]) (use Suc.prems(3) in simp)
  ultimately have "of_nat k \<le> tokens (refill ?rl now (bucket_of ?rl ip now))"
    unfolding b' refill_def [of ?rl] by (simp add: Let_def duration_since_def frame_simps)
  then have "allowed_count ?rl ip (replicate k now) = k"
    using Suc.IH [OF wf_is_allowed [OF Suc.prems(1)] rps] Suc.prems(3) by simp
  moreover have "fst (is_allowed rl ip now)" using one by (simp add: is_allowed_iff)
  ultimately show ?case by simp
qed simp

text \<open>A bucket that holds exactly \<open>m\<close> tokens grants exactly \<open>m\<close> requests of the same instant.\<close>

lemma same_instant_exact:
  assumes "wf_limiter rl" and "rl_rps rl \<noteq> 0"
    and "bucket_of rl ip now = \<lparr>tokens = of_nat m, last_refill = now\<rparr>" and "of_nat m \<le> rl_burst rl"
  shows "allowed_count rl ip (replicate k now) = min k m"
  using assms
proof (induction k arbitrary: rl m)
  case (Suc k)
  let ?rl = "snd (is_allowed rl ip now)"
  note wf = Suc.prems(1)
  obtain n where "rl_burst rl = of_nat n" "n < 2 ^ 32" by (rule wf_limiter_burst [OF wf])
  with Suc.prems(4) have m: "m \<le> 2 ^ 53" by simp
  then have refill: "refill rl now (bucket_of rl ip now) = \<lparr>tokens = of_nat m, last_refill = now\<rparr>"
    using Suc.prems(3,4) by (simp add: refill_def duration_since_def r64.nat_exact min_def)
  have less: "rnd64 (of_nat m - 1) = of_nat (m - 1)" if "0 < m"
    using that m r64.nat_exact [of "m - 1"] by simp
  have b: "bucket_of ?rl ip now = \<lparr>tokens = of_nat (m - 1), last_refill = now\<rparr>"
    using Suc.prems(2) refill less by (auto simp: bucket_of_def [of ?rl] is_allowed_bucket Let_def)
  have "of_nat (m - 1) \<le> rl_burst ?rl" using Suc.prems(4) by (simp add: frame_simps)
  then have "allowed_count ?rl ip (replicate k now) = min k (m - 1)"
    using Suc.IH [OF wf_is_allowed [OF wf] _ b] Suc.prems(2) by (simp add: frame_simps)
  moreover have "fst (is_allowed rl ip now) \<longleftrightarrow> 0 < m"
    using Suc.prems(2) refill by (auto simp: is_allowed_iff Suc_le_eq)
  ultimately show ?case by (cases m) auto
qed simp

lemma decide_all_other:
  "ip \<notin> fst ` set rs \<Longrightarrow> buckets (snd (decide_all rl rs)) ip = buckets rl ip"
proof (induction rl rs rule: decide_all.induct)
  case (2 rl ip' now rs)
  then show ?case
    using is_allowed_other [of ip ip' rl now]
    by (cases "is_allowed rl ip' now") (auto simp: Let_def split: prod.splits)
qed simp

section \<open>Properties\<close>

text \<open>
  C3: In any window of requests from one address, whatever happened before it, the number of
  requests let through is at most the burst plus the rate times the length of the window, up to
  the rounding slack of the \<^verbatim>\<open>f64\<close> arithmetic per request.
\<close>

theorem rate_bound:
  assumes wf: "wf_limiter rl" and rps: "rl_rps rl \<noteq> 0" and sorted: "sorted (t # ts)"
  shows "of_nat (allowed_count rl ip (t # ts))
    \<le> rl_burst rl + of_nat (last (t # ts) - t) / 1000000000 * rl_rps rl
       + of_nat (length (t # ts)) * slack rl"
proof -
  have burst: "0 \<le> rl_burst rl" by (rule wf_limiter_burst_nonneg [OF wf])
  let ?rl = "snd (is_allowed rl ip t)"
  let ?g = "if fst (is_allowed rl ip t) then 1 else 0 :: rat"
  obtain b where b: "buckets ?rl ip = Some b" "last_refill b = t" "0 \<le> tokens b"
    and g: "?g + tokens b \<le> tokens (refill rl t (bucket_of rl ip t)) + rl_burst rl / 2 ^ 53"
    using grant_upper [OF wf rps] by blast
  have "of_nat (allowed_count ?rl ip ts)
      \<le> tokens b + of_nat (last (t # ts) - t) / 1000000000 * rl_rps rl + of_nat (length ts) * slack rl"
    using allowed_count_bound [of ?rl ip b ts] b wf_is_allowed [OF wf] rps sorted
    by (simp add: frame_simps)
  moreover have "rl_burst rl / 2 ^ 53 \<le> slack rl"
  proof -
    have "0 \<le> rl_burst rl * ((1 + 1 / 2 ^ 53) ^ 4 - 1)"
      using burst r64.pow_ge_1 [of 4] by (intro mult_nonneg_nonneg) auto
    then show ?thesis using slack_split [OF burst] by linarith
  qed
  then have "tokens (refill rl t (bucket_of rl ip t)) + rl_burst rl / 2 ^ 53
      \<le> rl_burst rl + 0 + slack rl"
    using refill_le_burst [of rl t "bucket_of rl ip t"] by linarith
  ultimately have "?g + of_nat (allowed_count ?rl ip ts)
      \<le> rl_burst rl + of_nat (last (t # ts) - t) / 1000000000 * rl_rps rl
         + (slack rl + of_nat (length ts) * slack rl)"
    using g add_0 by (intro add_up)
  moreover have "of_nat (allowed_count rl ip (t # ts)) = ?g + of_nat (allowed_count ?rl ip ts)" by simp
  moreover have "of_nat (length (t # ts)) * slack rl = slack rl + of_nat (length ts) * slack rl"
    by (simp add: distrib_right)
  ultimately show ?thesis by simp
qed

lemma new_limiter_simps [simp]:
  "rl_rps (rate_limiter_new rps burst) = of_nat (unat rps)"
  "rl_burst (rate_limiter_new rps burst) = of_nat (unat burst)"
  "buckets (rate_limiter_new rps burst) = Map.empty"
  by (simp_all add: rate_limiter_new_def u32_as_f64_def)

theorem rate_bound_witness:
  "sorted [0 :: nat, 5] \<and>
   of_nat (allowed_count (rate_limiter_new 10 20) (V4 1) [0, 5])
     \<le> (20 :: rat) + 5 / 1000000000 * 10 + 2 * slack (rate_limiter_new 10 20)"
  using rate_bound [OF wf_limiter_new [of 10 20], of 0 "[5]" "V4 1"] by simp

text \<open>
  C30: A client not seen before gets exactly the burst: of \<open>k\<close> requests at one instant the first
  \<open>burst\<close> are allowed and no other. The burst is the capacity of the bucket, not an allowance on
  top of the rate; in particular a burst of 0 turns every request away.
\<close>

theorem fresh_client_gets_burst:
  assumes "rps \<noteq> 0"
  shows "allowed_count (rate_limiter_new rps burst) ip (replicate k now) = min k (unat burst)"
  using assms unsigned_eq_0_iff [of rps]
  by (intro same_instant_exact wf_limiter_new) (auto simp: bucket_of_def)

theorem fresh_client_gets_burst_witness:
  "(7 :: u32) \<noteq> 0 \<and> allowed_count (rate_limiter_new 7 0) (V4 1) (replicate 3 9) = 0"
  using fresh_client_gets_burst [of 7 0 "V4 1" 3 9] by simp

text \<open>
  C32: A client that stayed away long enough is served again: after \<open>n\<close> seconds without a call,
  \<open>k\<close> requests in a row are allowed, for any \<open>k\<close> up to both the burst and \<open>n\<close> times the rate.
\<close>

theorem idle_client_is_served:
  assumes wf: "wf_limiter rl" and rps: "rl_rps rl \<noteq> 0" and b: "buckets rl ip = Some b"
    and idle: "last_refill b + n * 1000000000 \<le> now" and n: "n \<le> 2 ^ 53"
    and k: "of_nat k \<le> rl_burst rl" "of_nat k \<le> of_nat n * rl_rps rl"
  shows "allowed_count rl ip (replicate k now) = k"
proof (rule same_instant_grants [OF wf rps])
  obtain m where m: "rl_burst rl = of_nat m" "m < 2 ^ 32" by (rule wf_limiter_burst [OF wf])
  with k(1) show k53: "k < 2 ^ 53" by simp
  let ?e = "as_secs_f64 (duration_since now (last_refill b))"
  have "of_nat n \<le> ?e"
    using idle n by (intro as_secs_f64_ge) (simp_all add: duration_since_def)
  then have "of_nat k \<le> ?e * rl_rps rl"
    using k(2) mult_right_mono [OF _ wf_limiter_rps_nonneg [OF wf]] by (meson order_trans)
  then have "of_nat k \<le> rnd64 (?e * rl_rps rl)" using k53 by (intro r64.ge_nat) auto
  moreover have "bucket_of rl ip now = b" using b by (simp add: bucket_of_def)
  moreover have "0 \<le> tokens b" using bucket_of_range(1) [OF wf, of ip now] b by (simp add: bucket_of_def)
  ultimately have "of_nat k \<le> rnd64 (tokens b + rnd64 (?e * rl_rps rl))"
    using k53 by (intro r64.ge_nat) auto
  then show "of_nat k \<le> tokens (refill rl now (bucket_of rl ip now))"
    using k(1) \<open>bucket_of rl ip now = b\<close> by (simp add: refill_def Let_def)
qed

theorem idle_client_is_served_witness:
  "(0 :: nat) + 1 * 1000000000 \<le> 1000000000 \<and>
   allowed_count ((rate_limiter_new 3 5)\<lparr>buckets := [V4 1 \<mapsto> \<lparr>tokens = 0, last_refill = 0\<rparr>]\<rparr>)
     (V4 1) (replicate 3 1000000000) = 3"
proof -
  let ?rl = "(rate_limiter_new 3 5)\<lparr>buckets := [V4 1 \<mapsto> \<lparr>tokens = 0, last_refill = 0\<rparr>]\<rparr>"
  have "wf_limiter ?rl"
    using wf_limiter_new [of 3 5] by (auto simp: wf_limiter_def ran_def split: if_splits)
  then show ?thesis
    using idle_client_is_served [of ?rl "V4 1" "\<lparr>tokens = 0, last_refill = 0\<rparr>" 1 1000000000 3]
    by simp
qed

text \<open>
  Whatever sequence of requests from whatever addresses a new limiter has decided, every
  bucket holds between zero tokens and the burst, and the rate and burst are as configured.
\<close>

theorem buckets_stay_in_range:
  fixes rps burst rs
  defines "rl \<equiv> snd (decide_all (rate_limiter_new rps burst) rs)"
  shows "wf_limiter rl \<and> rl_rps rl = of_nat (unat rps) \<and> rl_burst rl = of_nat (unat burst)"
proof -
  show ?thesis
    unfolding rl_def using wf_decide_all [OF wf_limiter_new] by (simp add: frame_simps)
qed

text \<open>
  Clients do not affect each other: after any calls for other addresses, a client gets the
  answer it would have got without them, and its bucket is the one it would have had.
\<close>

theorem clients_are_independent:
  assumes "ip \<notin> fst ` set rs"
  shows "fst (is_allowed (snd (decide_all rl rs)) ip t) = fst (is_allowed rl ip t) \<and>
    buckets (snd (is_allowed (snd (decide_all rl rs)) ip t)) ip = buckets (snd (is_allowed rl ip t)) ip"
proof -
  have same: "buckets (snd (decide_all rl rs)) ip = buckets rl ip"
    by (rule decide_all_other [OF assms])
  then have b: "bucket_of (snd (decide_all rl rs)) ip t = bucket_of rl ip t"
    by (simp add: bucket_of_def frame_simps split: option.splits)
  then have "refill (snd (decide_all rl rs)) t (bucket_of (snd (decide_all rl rs)) ip t)
      = refill rl t (bucket_of rl ip t)"
    by (simp add: refill_def frame_simps)
  then show ?thesis
    using same by (cases "rl_rps rl = 0")
      (simp_all add: is_allowed_off is_allowed_iff is_allowed_bucket frame_simps)
qed

theorem clients_are_independent_witness:
  "V4 1 \<notin> fst ` set [(V4 2, 0 :: nat)] \<and>
   fst (is_allowed (snd (decide_all (rate_limiter_new 1 1) [(V4 2, 0)])) (V4 1) 0)
     = fst (is_allowed (rate_limiter_new 1 1) (V4 1) 0)"
  using clients_are_independent [of "V4 1" "[(V4 2, 0)]" "rate_limiter_new 1 1" 0] by simp


section \<open>Calls out of order\<close>

text \<open>
  \<^verbatim>\<open>is_allowed\<close> reads the clock before it takes the lock of the bucket, so calls for one address
  can reach the bucket in another order than their instants. A late one moves \<open>last_refill\<close> back.
\<close>

definition drained :: "ip_addr \<Rightarrow> nat \<Rightarrow> rate_limiter" where
  "drained ip t = \<lparr>rl_rps = 1, rl_burst = 1, buckets = [ip \<mapsto> \<lparr>tokens = 0, last_refill = t\<rparr>]\<rparr>"

lemma rnd64_one: "rnd64 1 = 1"
  using rnd64_nat [of 1] by simp

lemma drained_steps:
  "is_allowed (drained ip 0) ip 1000000000 = (True, drained ip 1000000000)"
  "is_allowed (drained ip 1000000000) ip 0 = (False, drained ip 0)"
  by (simp_all add: is_allowed_def drained_def refill_def duration_since_def as_secs_f64_def rnd64_one Let_def)

text \<open>
  C31: The order of the instants is needed: with a rate and a burst of one, a client whose calls
  reach the bucket in alternating order is admitted any number of times within one second, because
  time that was credited is credited again after every step back.
\<close>

theorem calls_out_of_order_mint_tokens:
  "allowed_count (rate_limiter_new 1 1) ip (0 # concat (replicate k [1000000000, 0])) = Suc k"
proof -
  have "allowed_count (drained ip 0) ip (concat (replicate k [1000000000, 0])) = k"
    by (induction k) (simp_all add: drained_steps)
  moreover have "is_allowed (rate_limiter_new 1 1) ip 0 = (True, drained ip 0)"
    by (simp add: is_allowed_def drained_def refill_def duration_since_def rate_limiter_new_def u32_as_f64_def
        rnd64_one Let_def)
  ultimately show ?thesis by simp
qed

end
