(* ===== verification/Security.thy ===== *)
theory Security
  imports Config RustStr
begin

text \<open>
  The security module \<^verbatim>\<open>src/src/security.rs\<close>: the per-address connection count, the block list
  fed by failed TLS handshakes, and the request filter. The three \<^verbatim>\<open>DashMap\<close>s are maps; every
  method holds the guard of its entry while it works, so one call is one atomic step on the
  entry it touches. \<^verbatim>\<open>str::to_lowercase\<close> depends on the Unicode case tables: the filter takes it
  as the argument \<open>lc\<close>, which is \<^const>\<open>ascii_lower\<close> on ASCII text.
\<close>

record security_checker =
  sc_max_connections_per_ip :: usize
  sc_connections :: "ip_addr \<rightharpoonup> usize"
  sc_tls_failures :: "ip_addr \<rightharpoonup> u32"
  sc_blocked_ips :: "ip_addr \<rightharpoonup> unit"
  sc_flags :: security_flags

definition security_checker_new :: "usize \<Rightarrow> security_flags \<Rightarrow> security_checker" where
  "security_checker_new max_per_ip flags =
     \<lparr>sc_max_connections_per_ip = max_per_ip, sc_connections = Map.empty,
      sc_tls_failures = Map.empty, sc_blocked_ips = Map.empty, sc_flags = flags\<rparr>"

section \<open>Connection tracking\<close>

text \<open>\<open>Inl ()\<close> is \<^verbatim>\<open>Err(())\<close>. The entry is created before the limit is tested.\<close>

definition check_and_acquire_connection ::
    "security_checker \<Rightarrow> ip_addr \<Rightarrow> (unit + unit) \<times> security_checker" where
  "check_and_acquire_connection sc ip =
     (if sc_blocked_ips sc ip \<noteq> None then (Inl (), sc)
      else
        let cnt = (case sc_connections sc ip of Some c \<Rightarrow> c | None \<Rightarrow> 0)
        in if sc_max_connections_per_ip sc \<le> cnt
           then (Inl (), sc\<lparr>sc_connections := (sc_connections sc)(ip \<mapsto> cnt)\<rparr>)
           else (Inr (), sc\<lparr>sc_connections := (sc_connections sc)(ip \<mapsto> cnt + 1)\<rparr>))"

definition release_connection :: "security_checker \<Rightarrow> ip_addr \<Rightarrow> security_checker" where
  "release_connection sc ip =
     (case sc_connections sc ip of
        None \<Rightarrow> sc
      | Some cnt \<Rightarrow>
          if 0 < cnt then sc\<lparr>sc_connections := (sc_connections sc)(ip \<mapsto> cnt - 1)\<rparr> else sc)"

section \<open>TLS abuse detection\<close>

text \<open>\<^verbatim>\<open>fetch_add\<close> and the addition after it are on 32 bits and wrap.\<close>

definition record_tls_failure :: "security_checker \<Rightarrow> ip_addr \<Rightarrow> security_checker" where
  "record_tls_failure sc ip =
     (if \<not> block_tls_abusers (sc_flags sc) then sc
      else
        let old = (case sc_tls_failures sc ip of Some n \<Rightarrow> n | None \<Rightarrow> 0);
            cnt = old + 1;
            sc = sc\<lparr>sc_tls_failures := (sc_tls_failures sc)(ip \<mapsto> cnt)\<rparr>
        in if max_tls_failures (sc_flags sc) \<le> cnt
           then sc\<lparr>sc_blocked_ips := (sc_blocked_ips sc)(ip \<mapsto> ())\<rparr>
           else sc)"

section \<open>The request filter\<close>

definition apostrophe :: char where "apostrophe = CHR 0x27"

definition sqli_patterns :: "string list" where
  "sqli_patterns =
     ['' or 1=1'',
      apostrophe # '' or '' @ [apostrophe],
      apostrophe # '' or 1'',
      ''union select'',
      ''union all select'',
      ''select * from'',
      ''drop table'',
      ''insert into'',
      ''delete from'',
      ''--'',
      ''xp_cmdshell'',
      ''exec('']"

definition xss_patterns :: "string list" where
  "xss_patterns =
     [''<script'', ''javascript:'', ''onerror='', ''onload='', ''onclick='', ''alert('',
      ''document.cookie'', ''eval('', ''<iframe'', ''vbscript:'']"

text \<open>The loop over a pattern list: the first pattern found ends it with the message.\<close>

fun scan :: "string \<Rightarrow> string list \<Rightarrow> string \<Rightarrow> string + unit" where
  "scan lower [] msg = Inr ()"
| "scan lower (pat # pats) msg = (if contains lower pat then Inl msg else scan lower pats msg)"

definition target_of :: "string \<Rightarrow> string option \<Rightarrow> string" where
  "target_of path query = (case query of Some q \<Rightarrow> path @ ''?'' @ q | None \<Rightarrow> path)"

definition traversal :: "string \<Rightarrow> bool" where
  "traversal lower \<longleftrightarrow> contains lower ''../'' \<or> contains lower (''..'' @ [CHR 0x5C])"

definition check_request ::
    "(string \<Rightarrow> string) \<Rightarrow> security_checker \<Rightarrow> string \<Rightarrow> string option \<Rightarrow> string option \<Rightarrow> string + unit" where
  "check_request lc sc path query user_agent =
     (if block_empty_user_agent (sc_flags sc)
         \<and> ascii_trim (case user_agent of Some s \<Rightarrow> s | None \<Rightarrow> []) = []
      then Inl ''No User-Agent''
      else
        let lower = lc (target_of path query)
        in if waf_path_traversal (sc_flags sc) \<and> traversal lower then Inl ''Path traversal attempt''
           else
             case (if waf_sqli (sc_flags sc) then scan lower sqli_patterns ''SQL injection pattern detected''
                   else Inr ())
             of Inl e \<Rightarrow> Inl e
              | Inr _ \<Rightarrow>
                  (case (if waf_xss (sc_flags sc) then scan lower xss_patterns ''XSS pattern detected''
                         else Inr ())
                   of Inl e \<Rightarrow> Inl e | Inr _ \<Rightarrow> Inr ()))"

section \<open>What the operations do\<close>

definition conn_count :: "security_checker \<Rightarrow> ip_addr \<Rightarrow> usize" where
  "conn_count sc ip = (case sc_connections sc ip of Some c \<Rightarrow> c | None \<Rightarrow> 0)"

definition blocked :: "security_checker \<Rightarrow> ip_addr \<Rightarrow> bool" where
  "blocked sc ip \<longleftrightarrow> sc_blocked_ips sc ip \<noteq> None"

definition tls_count :: "security_checker \<Rightarrow> ip_addr \<Rightarrow> u32" where
  "tls_count sc ip = (case sc_tls_failures sc ip of Some n \<Rightarrow> n | None \<Rightarrow> 0)"

lemma security_checker_new_simps [simp]:
  "conn_count (security_checker_new m fl) ip = 0" "blocked (security_checker_new m fl) ip = False"
  "tls_count (security_checker_new m fl) ip = 0" "sc_flags (security_checker_new m fl) = fl"
  "sc_max_connections_per_ip (security_checker_new m fl) = m"
  by (simp_all add: security_checker_new_def conn_count_def blocked_def tls_count_def)

lemma acquire_result [step_simps]:
  "fst (check_and_acquire_connection sc ip) =
     (if \<not> blocked sc ip \<and> conn_count sc ip < sc_max_connections_per_ip sc then Inr () else Inl ())"
  by (auto simp: check_and_acquire_connection_def blocked_def conn_count_def Let_def)

lemma acquire_count [step_simps]:
  "conn_count (snd (check_and_acquire_connection sc ip)) ip' =
     (if ip' = ip \<and> \<not> blocked sc ip \<and> conn_count sc ip < sc_max_connections_per_ip sc
      then conn_count sc ip + 1 else conn_count sc ip')"
  by (auto simp: check_and_acquire_connection_def blocked_def conn_count_def Let_def word_gt_0
      split: option.splits)

lemma acquire_frame [frame_simps]:
  "sc_max_connections_per_ip (snd (check_and_acquire_connection sc ip)) = sc_max_connections_per_ip sc"
  "sc_tls_failures (snd (check_and_acquire_connection sc ip)) = sc_tls_failures sc"
  "sc_blocked_ips (snd (check_and_acquire_connection sc ip)) = sc_blocked_ips sc"
  "sc_flags (snd (check_and_acquire_connection sc ip)) = sc_flags sc"
  by (simp_all add: check_and_acquire_connection_def Let_def)

lemma release_count [step_simps]:
  "conn_count (release_connection sc ip) ip' =
     (if ip' = ip \<and> 0 < conn_count sc ip then conn_count sc ip - 1 else conn_count sc ip')"
  by (auto simp: release_connection_def conn_count_def split: option.splits)

lemma release_frame [frame_simps]:
  "sc_max_connections_per_ip (release_connection sc ip) = sc_max_connections_per_ip sc"
  "sc_tls_failures (release_connection sc ip) = sc_tls_failures sc"
  "sc_blocked_ips (release_connection sc ip) = sc_blocked_ips sc"
  "sc_flags (release_connection sc ip) = sc_flags sc"
  by (simp_all add: release_connection_def split: option.splits)

lemma tls_failure_frame [frame_simps]:
  "sc_max_connections_per_ip (record_tls_failure sc ip) = sc_max_connections_per_ip sc"
  "sc_connections (record_tls_failure sc ip) = sc_connections sc"
  "sc_flags (record_tls_failure sc ip) = sc_flags sc"
  by (simp_all add: record_tls_failure_def Let_def)

lemma tls_failure_count [step_simps]:
  "tls_count (record_tls_failure sc ip) ip' =
     (if ip' = ip \<and> block_tls_abusers (sc_flags sc) then tls_count sc ip + 1 else tls_count sc ip')"
  by (auto simp: record_tls_failure_def tls_count_def Let_def)

lemma tls_failure_blocked [step_simps]:
  "blocked (record_tls_failure sc ip) ip' \<longleftrightarrow>
     blocked sc ip' \<or>
     (ip' = ip \<and> block_tls_abusers (sc_flags sc) \<and> max_tls_failures (sc_flags sc) \<le> tls_count sc ip + 1)"
  by (auto simp: record_tls_failure_def blocked_def tls_count_def Let_def)

lemma blocked_frame [frame_simps]:
  "blocked (snd (check_and_acquire_connection sc ip)) = blocked sc"
  "blocked (release_connection sc ip) = blocked sc"
  by (simp_all add: blocked_def fun_eq_iff frame_simps)

lemma conn_count_frame [frame_simps]: "conn_count (record_tls_failure sc ip) = conn_count sc"
  by (simp add: conn_count_def fun_eq_iff frame_simps)

section \<open>The connection guard's contract\<close>

text \<open>
  The listener holds one \<^verbatim>\<open>IpConnectionGuard\<close> per accepted connection. The security checker
  keeps the contract of such guards: the limit is the configured one, or zero for a blocked
  address.
\<close>

definition conn_limit :: "security_checker \<Rightarrow> ip_addr \<Rightarrow> nat" where
  "conn_limit sc ip = (if blocked sc ip then 0 else unat (sc_max_connections_per_ip sc))"

definition conn_acquire :: "ip_addr \<Rightarrow> security_checker \<Rightarrow> security_checker" where
  "conn_acquire ip sc = snd (check_and_acquire_connection sc ip)"

definition conn_release :: "ip_addr \<Rightarrow> security_checker \<Rightarrow> security_checker" where
  "conn_release ip sc = release_connection sc ip"

interpretation conn: guarded_count "\<lambda>sc ip. unat (conn_count sc ip)" conn_limit conn_acquire conn_release
proof
  fix s k
  assume "unat (conn_count s k) < conn_limit s k"
  then have "\<not> blocked s k" "conn_count s k < sc_max_connections_per_ip s"
    by (auto simp: conn_limit_def word_less_nat_alt split: if_splits)
  then show "unat (conn_count (conn_acquire k s) k) = Suc (unat (conn_count s k))"
    by (simp add: conn_acquire_def acquire_count unat_Suc_less)
next
  fix s k
  assume "0 < unat (conn_count s k)"
  then have "0 < conn_count s k" by (simp add: word_less_nat_alt)
  then show "Suc (unat (conn_count (conn_release k s) k)) = unat (conn_count s k)"
    by (simp add: conn_release_def release_count unat_pred)
qed (simp_all add: conn_acquire_def conn_release_def acquire_count release_count)

lemma acquire_Ok_iff:
  "fst (check_and_acquire_connection sc ip) = Inr () \<longleftrightarrow> unat (conn_count sc ip) < conn_limit sc ip"
  by (auto simp: acquire_result conn_limit_def word_less_nat_alt)

section \<open>Sequences of events\<close>

datatype sec_event = Acquire ip_addr | Release ip_addr | TlsFailure ip_addr

fun sec_step :: "security_checker \<Rightarrow> sec_event \<Rightarrow> security_checker" where
  "sec_step sc (Acquire ip) = snd (check_and_acquire_connection sc ip)"
| "sec_step sc (Release ip) = release_connection sc ip"
| "sec_step sc (TlsFailure ip) = record_tls_failure sc ip"

definition sec_run :: "security_checker \<Rightarrow> sec_event list \<Rightarrow> security_checker" where
  "sec_run sc es = foldl sec_step sc es"

lemma sec_run_simps [simp]:
  "sec_run sc [] = sc" "sec_run sc (e # es) = sec_run (sec_step sc e) es"
  by (simp_all add: sec_run_def)

definition wf_security :: "security_checker \<Rightarrow> bool" where
  "wf_security sc \<longleftrightarrow> (\<forall>ip. conn_count sc ip \<le> sc_max_connections_per_ip sc)"

lemma wf_security_new: "wf_security (security_checker_new m fl)"
  by (simp add: wf_security_def)

lemma wf_sec_step [inv_intros]: "wf_security sc \<Longrightarrow> wf_security (sec_step sc e)"
  by (cases e)
    (auto simp: wf_security_def acquire_count release_count frame_simps word_Suc_le word_pred_le)

lemma wf_sec_run [inv_intros]: "wf_security sc \<Longrightarrow> wf_security (sec_run sc es)"
  by (induction es arbitrary: sc) (auto intro: inv_intros)

lemma sec_step_config [frame_simps]:
  "sc_max_connections_per_ip (sec_step sc e) = sc_max_connections_per_ip sc"
  "sc_flags (sec_step sc e) = sc_flags sc"
  by (cases e; simp add: frame_simps)+

lemma sec_run_config [frame_simps]:
  "sc_max_connections_per_ip (sec_run sc es) = sc_max_connections_per_ip sc"
  "sc_flags (sec_run sc es) = sc_flags sc"
  by (induction es arbitrary: sc) (simp_all add: frame_simps)

lemma blocked_step: "blocked sc ip \<Longrightarrow> blocked (sec_step sc e) ip"
  by (cases e) (auto simp: frame_simps tls_failure_blocked)

lemma blocked_run: "blocked sc ip \<Longrightarrow> blocked (sec_run sc es) ip"
  by (induction es arbitrary: sc) (auto intro: blocked_step)

section \<open>The filter, pattern by pattern\<close>

lemma scan_Inr_iff: "scan s ps m = Inr () \<longleftrightarrow> (\<forall>p \<in> set ps. \<not> contains s p)"
  by (induction ps) auto

lemma scan_Inl_iff: "scan s ps m = Inl e \<longleftrightarrow> e = m \<and> (\<exists>p \<in> set ps. contains s p)"
  by (induction ps) auto

definition no_user_agent :: "string option \<Rightarrow> bool" where
  "no_user_agent ua \<longleftrightarrow> (\<forall>c \<in> set (case ua of Some s \<Rightarrow> s | None \<Rightarrow> []). is_ascii_ws c)"

definition sqli :: "string \<Rightarrow> bool" where
  "sqli s \<longleftrightarrow> (\<exists>p \<in> set sqli_patterns. contains s p)"

definition xss :: "string \<Rightarrow> bool" where
  "xss s \<longleftrightarrow> (\<exists>p \<in> set xss_patterns. contains s p)"

lemma check_request_eq [step_simps]:
  "check_request lc sc path query ua =
     (let fl = sc_flags sc; s = lc (target_of path query) in
      if block_empty_user_agent fl \<and> no_user_agent ua then Inl ''No User-Agent''
      else if waf_path_traversal fl \<and> traversal s then Inl ''Path traversal attempt''
      else if waf_sqli fl \<and> sqli s then Inl ''SQL injection pattern detected''
      else if waf_xss fl \<and> xss s then Inl ''XSS pattern detected''
      else Inr ())"
proof -
  have scans: "scan s sqli_patterns m = (if sqli s then Inl m else Inr ())"
      "scan s xss_patterns m = (if xss s then Inl m else Inr ())" for s m
    by (auto simp: sqli_def xss_def scan_Inl_iff scan_Inr_iff)
  show ?thesis
    by (auto simp: check_request_def no_user_agent_def ascii_trim_Nil_iff Let_def scans)
qed

text \<open>A pattern with a character the text does not have is not in it.\<close>

lemma contains_needs: "c \<in> set p \<Longrightarrow> c \<notin> set s \<Longrightarrow> \<not> contains s p"
  using contains_set by blast

lemma target_of_set:
  "set (target_of path query) =
     set path \<union> (case query of Some q \<Rightarrow> insert (CHR ''?'') (set q) | None \<Rightarrow> {})"
  by (auto simp: target_of_def split: option.splits)

section \<open>Properties\<close>

text \<open>
  A connection is granted exactly when the address is not blocked and has fewer live
  connections than the limit; a grant adds one to the count of that address, a refusal changes
  no count, and no other address is touched in either case.
\<close>

theorem acquire_spec:
  "(fst (check_and_acquire_connection sc ip) = Inr () \<longleftrightarrow>
      \<not> blocked sc ip \<and> conn_count sc ip < sc_max_connections_per_ip sc) \<and>
   unat (conn_count (snd (check_and_acquire_connection sc ip)) ip) =
      unat (conn_count sc ip) + (if fst (check_and_acquire_connection sc ip) = Inr () then 1 else 0) \<and>
   (\<forall>ip'. ip' \<noteq> ip \<longrightarrow>
      sc_connections (snd (check_and_acquire_connection sc ip)) ip' = sc_connections sc ip')"
  by (auto simp: acquire_result acquire_count unat_Suc_less)
    (auto simp: check_and_acquire_connection_def Let_def)

theorem acquire_spec_witness:
  "V4 2 \<noteq> V4 1 \<and>
   sc_connections (snd (check_and_acquire_connection (security_checker_new 1 security_flags_default)
      (V4 1))) (V4 2) = None"
  using acquire_spec [of "security_checker_new 1 security_flags_default" "V4 1"]
  by (simp add: security_checker_new_def)

text \<open>
  Whatever sequence of connection attempts, releases and failed handshakes a new checker
  sees, no address ever has more connections counted than the configured limit.
\<close>

theorem count_within_limit:
  "conn_count (sec_run (security_checker_new m fl) es) ip \<le> m"
  using wf_sec_run [OF wf_security_new, of m fl es] by (simp add: wf_security_def frame_simps)

text \<open>The failed handshakes of an address in a sequence of events.\<close>

definition failures_of :: "ip_addr \<Rightarrow> sec_event list \<Rightarrow> nat" where
  "failures_of ip es = count_list es (TlsFailure ip)"

lemma failures_of_simps [simp]:
  "failures_of ip [] = 0" "failures_of ip (TlsFailure ip' # es) = (if ip' = ip then 1 else 0) + failures_of ip es"
  "failures_of ip (Acquire ip' # es) = failures_of ip es" "failures_of ip (Release ip' # es) = failures_of ip es"
  by (simp_all add: failures_of_def)

lemma tls_count_frame [frame_simps]:
  "tls_count (snd (check_and_acquire_connection sc ip)) = tls_count sc"
  "tls_count (release_connection sc ip) = tls_count sc"
  by (simp_all add: tls_count_def fun_eq_iff frame_simps)

lemma tls_blocked_run:
  assumes "block_tls_abusers (sc_flags sc)"
  shows "blocked (sec_run sc es) ip \<longleftrightarrow>
     blocked sc ip \<or>
     (\<exists>j. 1 \<le> j \<and> j \<le> failures_of ip es \<and> max_tls_failures (sc_flags sc) \<le> tls_count sc ip + of_nat j)"
  using assms
proof (induction es arbitrary: sc)
  case (Cons e es)
  let ?m = "max_tls_failures (sc_flags sc)" and ?c = "tls_count sc ip" and ?k = "failures_of ip es"
  have shift: "(\<exists>j. 1 \<le> j \<and> j \<le> Suc ?k \<and> ?m \<le> ?c + of_nat j) \<longleftrightarrow>
      ?m \<le> ?c + 1 \<or> (\<exists>j. 1 \<le> j \<and> j \<le> ?k \<and> ?m \<le> ?c + 1 + of_nat j)"
    using ex_from_one_Suc [of ?k "\<lambda>j. ?m \<le> ?c + of_nat j"] by (simp add: add_ac)
  show ?case
    using Cons.IH [of "sec_step sc e"] Cons.prems shift
    by (cases e) (auto simp: tls_failure_blocked tls_failure_count frame_simps)
qed simp

lemma never_blocked_run:
  assumes "\<not> block_tls_abusers (sc_flags sc)"
  shows "blocked (sec_run sc es) ip = blocked sc ip"
  using assms
proof (induction es arbitrary: sc)
  case (Cons e es)
  then show ?case using Cons.IH [of "sec_step sc e"]
    by (cases e) (simp_all add: frame_simps tls_failure_blocked)
qed simp

lemma tls_max_bound: "unat (max_tls_failures fl) < 2 ^ 32"
proof -
  have "unat (max_tls_failures fl) < 2 ^ LENGTH(32)" by (rule unsigned_less)
  then show ?thesis by simp
qed

text \<open>
  C33: Whatever connection attempts, ends of connections and failed handshakes of any addresses come in
  whatever order, an address is blocked exactly when abuse detection is on and it has failed a
  handshake itself at least as often as the configured maximum, and at least once; what other
  addresses do does not count.
\<close>

theorem blocked_after_failures:
  "blocked (sec_run (security_checker_new m fl) es) ip \<longleftrightarrow>
     block_tls_abusers fl \<and> 1 \<le> count_list es (TlsFailure ip) \<and>
     unat (max_tls_failures fl) \<le> count_list es (TlsFailure ip)"
proof (cases "block_tls_abusers fl")
  case False
  then show ?thesis using never_blocked_run [of "security_checker_new m fl" es ip] by simp
next
  case True
  let ?k = "failures_of ip es"
  have small: "max_tls_failures fl \<le> of_nat j \<longleftrightarrow> unat (max_tls_failures fl) \<le> j"
    if "j < 2 ^ 32" for j
    using that by (simp add: word_le_nat_alt unat_of_nat)
  let ?n = "max 1 (unat (max_tls_failures fl))"
  have n: "?n < 2 ^ 32" using tls_max_bound [of fl] by simp
  have "(\<exists>j. 1 \<le> j \<and> j \<le> ?k \<and> max_tls_failures fl \<le> of_nat j) \<longleftrightarrow> ?n \<le> ?k"
  proof
    assume "\<exists>j. 1 \<le> j \<and> j \<le> ?k \<and> max_tls_failures fl \<le> of_nat j"
    then obtain j where j: "1 \<le> j" "j \<le> ?k" "max_tls_failures fl \<le> of_nat j" by blast
    show "?n \<le> ?k"
    proof (cases "j < 2 ^ 32")
      case True
      with j small show ?thesis by auto
    next
      case False
      with j n show ?thesis by linarith
    qed
  next
    assume "?n \<le> ?k"
    then show "\<exists>j. 1 \<le> j \<and> j \<le> ?k \<and> max_tls_failures fl \<le> of_nat j"
      using small [OF n] by (intro exI [of _ ?n]) auto
  qed
  then show ?thesis
    using True tls_blocked_run [of "security_checker_new m fl" es ip] by (auto simp: failures_of_def)
qed

text \<open>
  A block is for good: once an address is blocked, no later sequence of events lets it have
  a connection again.
\<close>

theorem blocked_forever:
  assumes "blocked sc ip"
  shows "fst (check_and_acquire_connection (sec_run sc es) ip) = Inl ()"
  using blocked_run [OF assms, of es] by (simp add: acquire_result)

theorem blocked_forever_witness:
  "blocked (record_tls_failure (security_checker_new 5 (security_flags_default\<lparr>max_tls_failures := 1\<rparr>)) (V4 1)) (V4 1)
   \<and> fst (check_and_acquire_connection
       (sec_run (record_tls_failure
          (security_checker_new 5 (security_flags_default\<lparr>max_tls_failures := 1\<rparr>)) (V4 1))
          [Release (V4 1)]) (V4 1)) = Inl ()"
proof -
  have "blocked (record_tls_failure
      (security_checker_new 5 (security_flags_default\<lparr>max_tls_failures := 1\<rparr>)) (V4 1)) (V4 1)"
    by (simp add: tls_failure_blocked security_flags_default_def)
  then show ?thesis using blocked_forever by blast
qed

text \<open>
  The filter does not depend on the case of ASCII letters in the path and query.
\<close>

theorem check_request_case_insensitive:
  assumes "ascii_lower (target_of path query) = ascii_lower (target_of path' query')"
  shows "check_request ascii_lower sc path query ua = check_request ascii_lower sc path' query' ua"
  using assms by (simp add: check_request_eq Let_def)

theorem check_request_case_insensitive_witness:
  "ascii_lower (target_of ''/a'' (Some ''x=EVAL('')) = ascii_lower (target_of ''/A'' (Some ''x=eval('')) \<and>
   check_request ascii_lower sc ''/a'' (Some ''x=EVAL('') None
     = check_request ascii_lower sc ''/A'' (Some ''x=eval('') None"
proof -
  have "ascii_lower (target_of ''/a'' (Some ''x=EVAL('')) = ascii_lower (target_of ''/A'' (Some ''x=eval(''))"
    by code_simp
  then show ?thesis using check_request_case_insensitive by blast
qed

text \<open>
  The text the filter looks at is the raw URI, and a URI has no space and no less-than sign
  in it (they arrive percent-encoded). On such text nine of the twelve SQL patterns and two of
  the ten script patterns can never match: the SQL check reduces to three patterns and the
  script check to eight.
\<close>

theorem filter_on_raw_uri:
  assumes "CHR '' '' \<notin> set (target_of path query)" and "CHR ''<'' \<notin> set (target_of path query)"
  shows "(sqli (ascii_lower (target_of path query)) \<longleftrightarrow>
      (\<exists>p \<in> {''--'', ''xp_cmdshell'', ''exec(''}. contains (ascii_lower (target_of path query)) p)) \<and>
    (xss (ascii_lower (target_of path query)) \<longleftrightarrow>
      (\<exists>p \<in> {''javascript:'', ''onerror='', ''onload='', ''onclick='', ''alert('',
               ''document.cookie'', ''eval('', ''vbscript:''}.
         contains (ascii_lower (target_of path query)) p))"
proof -
  let ?s = "ascii_lower (target_of path query)"
  have sp: "CHR '' '' \<notin> set ?s" and lt: "CHR ''<'' \<notin> set ?s"
    using assms by (simp_all add: set_ascii_lower_iff)
  have no: "\<not> contains ?s p" if "CHR '' '' \<in> set p \<or> CHR ''<'' \<in> set p" for p
    using that sp lt contains_needs by blast
  have "\<not> contains ?s '' or 1=1''" "\<not> contains ?s (apostrophe # '' or '' @ [apostrophe])"
    "\<not> contains ?s (apostrophe # '' or 1'')" "\<not> contains ?s ''union select''"
    "\<not> contains ?s ''union all select''" "\<not> contains ?s ''select * from''"
    "\<not> contains ?s ''drop table''" "\<not> contains ?s ''insert into''" "\<not> contains ?s ''delete from''"
    "\<not> contains ?s ''<script''" "\<not> contains ?s ''<iframe''"
    by (rule no; simp)+
  then show ?thesis
    unfolding sqli_def xss_def sqli_patterns_def xss_patterns_def by auto
qed

theorem filter_on_raw_uri_witness:
  "CHR '' '' \<notin> set (target_of ''/i'' (Some ''1%27%20or%201=1'')) \<and>
   CHR ''<'' \<notin> set (target_of ''/i'' (Some ''1%27%20or%201=1'')) \<and>
   \<not> sqli (ascii_lower (target_of ''/i'' (Some ''1%27%20or%201=1'')))"
proof -
  let ?t = "target_of ''/i'' (Some ''1%27%20or%201=1'')"
  have h: "CHR '' '' \<notin> set ?t" "CHR ''<'' \<notin> set ?t" by (simp_all add: target_of_def)
  have "\<not> contains (ascii_lower ?t) ''--''" "\<not> contains (ascii_lower ?t) ''xp_cmdshell''"
    "\<not> contains (ascii_lower ?t) ''exec(''"
    by code_simp+
  then show ?thesis using h filter_on_raw_uri [OF h] by simp
qed

end
