(* ===== verification/LoadBalancer.thy ===== *)
theory LoadBalancer
  imports Config
begin

text \<open>
  The load balancer \<^verbatim>\<open>src/src/load_balancer.rs\<close>: backends with their circuit breaker, the three
  strategies, the connection guard, and the manager with one balancer per domain. The atomics
  are words and wrap. A guard is the index of the backend it will release. The reading of
  \<^verbatim>\<open>unix_now()\<close> is an argument; a selection may read the clock once per backend it probes, so it takes the sequence
  of readings \<open>clk\<close>, the \<open>i\<close>-th probe reading \<open>clk i\<close>.
\<close>

unbundle bit_operations_syntax

text \<open>
  \<^verbatim>\<open>unix_now()\<close>, from a reading of the system clock in nanoseconds since the epoch: whole seconds,
  and 0 for a clock that stands before the epoch.
\<close>

definition unix_now :: "int \<Rightarrow> u64" where
  "unix_now ns = (if ns < 0 then 0 else of_int (ns div 1000000000))"

definition CB_THRESHOLD :: usize where "CB_THRESHOLD = 5"

definition CB_RESET_SECS :: u64 where "CB_RESET_SECS = 30"

section \<open>One backend\<close>

record backend =
  b_url :: string
  b_active :: usize
  b_failures :: usize
  b_last_failure :: u64
  b_circuit_open :: bool

definition backend_new :: "string \<Rightarrow> backend" where
  "backend_new url =
     \<lparr>b_url = url, b_active = 0, b_failures = 0, b_last_failure = 0, b_circuit_open = False\<rparr>"

definition acquire :: "backend \<Rightarrow> backend" where
  "acquire b = b\<lparr>b_active := b_active b + 1\<rparr>"

definition release :: "backend \<Rightarrow> backend" where
  "release b = b\<lparr>b_active := b_active b - 1\<rparr>"

definition active_count :: "backend \<Rightarrow> usize" where
  "active_count b = b_active b"

definition record_success :: "backend \<Rightarrow> backend" where
  "record_success b = b\<lparr>b_failures := 0, b_circuit_open := False\<rparr>"

definition record_failure :: "u64 \<Rightarrow> backend \<Rightarrow> backend" where
  "record_failure now b =
     (let f = b_failures b + 1;
          b = b\<lparr>b_failures := f, b_last_failure := now\<rparr>
      in if CB_THRESHOLD \<le> f then b\<lparr>b_circuit_open := True\<rparr> else b)"

text \<open>The subtraction is on 64 bits; the release profile has no overflow checks, so it wraps.\<close>

definition is_healthy :: "u64 \<Rightarrow> backend \<Rightarrow> bool \<times> backend" where
  "is_healthy now b =
     (if \<not> b_circuit_open b then (True, b)
      else
        let elapsed = now - b_last_failure b
        in if CB_RESET_SECS \<le> elapsed
           then (True, b\<lparr>b_circuit_open := False, b_failures := 0\<rparr>)
           else (False, b))"

section \<open>The balancer\<close>

record load_balancer =
  lb_backends :: "backend list"
  lb_strategy :: load_balance
  lb_cursor :: usize

definition load_balancer_new :: "domain_config \<Rightarrow> load_balancer" where
  "load_balancer_new cfg =
     \<lparr>lb_backends = map backend_new (dc_backends cfg), lb_strategy = dc_load_balance cfg,
      lb_cursor = 0\<rparr>"

text \<open>The loop of \<^verbatim>\<open>round_robin\<close>: \<open>k\<close> rounds left, \<open>i\<close> done.\<close>

fun rr_loop :: "(nat \<Rightarrow> u64) \<Rightarrow> nat \<Rightarrow> nat \<Rightarrow> load_balancer \<Rightarrow> nat option \<times> load_balancer" where
  "rr_loop clk 0 i lb = (None, lb)"
| "rr_loop clk (Suc k) i lb =
     (let idx = unat (lb_cursor lb) mod length (lb_backends lb);
          lb = lb\<lparr>lb_cursor := lb_cursor lb + 1\<rparr>;
          (ok, b) = is_healthy (clk i) (lb_backends lb ! idx);
          lb = lb\<lparr>lb_backends := (lb_backends lb)[idx := b]\<rparr>
      in if ok then (Some idx, lb) else rr_loop clk k (Suc i) lb)"

definition round_robin :: "(nat \<Rightarrow> u64) \<Rightarrow> load_balancer \<Rightarrow> nat option \<times> load_balancer" where
  "round_robin clk lb = rr_loop clk (length (lb_backends lb)) 0 lb"

text \<open>
  \<^verbatim>\<open>filter\<close> and \<^verbatim>\<open>min_by_key\<close> in one pass: \<open>best\<close> is the index and count of the least loaded
  healthy backend so far; of equal counts the first is kept.
\<close>

fun lc_loop ::
    "(nat \<Rightarrow> u64) \<Rightarrow> nat \<Rightarrow> backend list \<Rightarrow> (nat \<times> usize) option \<Rightarrow> (nat \<times> usize) option \<times> backend list" where
  "lc_loop clk i [] best = (best, [])"
| "lc_loop clk i (b # bs) best =
     (let (ok, b') = is_healthy (clk i) b;
          best = (if ok then
                    (case best of
                       None \<Rightarrow> Some (i, active_count b')
                     | Some (j, a) \<Rightarrow> if active_count b' < a then Some (i, active_count b') else Some (j, a))
                  else best);
          (r, bs') = lc_loop clk (Suc i) bs best
      in (r, b' # bs'))"

definition least_connections :: "(nat \<Rightarrow> u64) \<Rightarrow> load_balancer \<Rightarrow> nat option \<times> load_balancer" where
  "least_connections clk lb =
     (let (r, bs) = lc_loop clk 0 (lb_backends lb) None
      in (map_option fst r, lb\<lparr>lb_backends := bs\<rparr>))"

text \<open>The last four octets of a version 6 address, read as a big-endian number.\<close>

definition octet :: "128 word \<Rightarrow> nat \<Rightarrow> u8" where
  "octet a i = ucast (drop_bit (8 * (15 - i)) a)"

definition from_be_bytes :: "u8 \<Rightarrow> u8 \<Rightarrow> u8 \<Rightarrow> u8 \<Rightarrow> u32" where
  "from_be_bytes a b c d =
     push_bit 24 (ucast a) OR push_bit 16 (ucast b) OR push_bit 8 (ucast c) OR ucast d"

definition hash_of :: "ip_addr option \<Rightarrow> usize" where
  "hash_of ip =
     (case ip of
        Some (V4 a) \<Rightarrow> ucast a
      | Some (V6 a) \<Rightarrow> ucast (from_be_bytes (octet a 12) (octet a 13) (octet a 14) (octet a 15))
      | None \<Rightarrow> 0)"

text \<open>The sum \<^verbatim>\<open>hash + i\<close> stays below \<open>2^64\<close>: a vector has less than \<open>2^63\<close> elements.\<close>

fun ih_loop :: "(nat \<Rightarrow> u64) \<Rightarrow> nat \<Rightarrow> nat \<Rightarrow> nat \<Rightarrow> load_balancer \<Rightarrow> nat option \<times> load_balancer" where
  "ih_loop clk h 0 i lb = (None, lb)"
| "ih_loop clk h (Suc k) i lb =
     (let idx = (h + i) mod length (lb_backends lb);
          (ok, b) = is_healthy (clk i) (lb_backends lb ! idx);
          lb = lb\<lparr>lb_backends := (lb_backends lb)[idx := b]\<rparr>
      in if ok then (Some idx, lb) else ih_loop clk h k (Suc i) lb)"

definition ip_hash :: "(nat \<Rightarrow> u64) \<Rightarrow> ip_addr option \<Rightarrow> load_balancer \<Rightarrow> nat option \<times> load_balancer" where
  "ip_hash clk ip lb = ih_loop clk (unat (hash_of ip)) (length (lb_backends lb)) 0 lb"

definition update_backend :: "nat \<Rightarrow> (backend \<Rightarrow> backend) \<Rightarrow> load_balancer \<Rightarrow> load_balancer" where
  "update_backend i f lb = lb\<lparr>lb_backends := (lb_backends lb)[i := f (lb_backends lb ! i)]\<rparr>"

definition select ::
    "(nat \<Rightarrow> u64) \<Rightarrow> ip_addr option \<Rightarrow> load_balancer \<Rightarrow> (string \<times> nat) option \<times> load_balancer" where
  "select clk ip lb =
     (if lb_backends lb = [] then (None, lb)
      else
        let (r, lb) = (case lb_strategy lb of
                         RoundRobin \<Rightarrow> round_robin clk lb
                       | LeastConnections \<Rightarrow> least_connections clk lb
                       | IpHash \<Rightarrow> ip_hash clk ip lb)
        in case r of
             None \<Rightarrow> (None, lb)
           | Some i \<Rightarrow> (Some (b_url (lb_backends lb ! i), i), update_backend i acquire lb))"

text \<open>\<^verbatim>\<open>Drop\<close> of a \<^verbatim>\<open>ConnectionGuard\<close>.\<close>

definition drop_guard :: "nat \<Rightarrow> load_balancer \<Rightarrow> load_balancer" where
  "drop_guard i lb = update_backend i release lb"

text \<open>Feedback goes to the first backend with that URL; an unknown URL is ignored.\<close>

fun on_url :: "string \<Rightarrow> (backend \<Rightarrow> backend) \<Rightarrow> backend list \<Rightarrow> backend list" where
  "on_url url f [] = []"
| "on_url url f (b # bs) = (if b_url b = url then f b # bs else b # on_url url f bs)"

definition success :: "string \<Rightarrow> load_balancer \<Rightarrow> load_balancer" where
  "success url lb = lb\<lparr>lb_backends := on_url url record_success (lb_backends lb)\<rparr>"

definition failure :: "u64 \<Rightarrow> string \<Rightarrow> load_balancer \<Rightarrow> load_balancer" where
  "failure now url lb = lb\<lparr>lb_backends := on_url url (record_failure now) (lb_backends lb)\<rparr>"

section \<open>The manager\<close>

type_synonym lb_manager = "string \<rightharpoonup> load_balancer"

definition lb_manager_new :: lb_manager where
  "lb_manager_new = Map.empty"

definition add_domain :: "string \<Rightarrow> load_balancer \<Rightarrow> lb_manager \<Rightarrow> lb_manager" where
  "add_domain domain lb m = m(domain \<mapsto> lb)"

definition lb_get :: "lb_manager \<Rightarrow> string \<Rightarrow> load_balancer option" where
  "lb_get m domain = m domain"

section \<open>Probing\<close>

text \<open>
  What a strategy relies on when it probes a backend: the answer is whether the backend is up at
  that time, and a probe that finds it down changes nothing. Two of the strategies walk along a
  sequence of slots until a probe succeeds.
\<close>

locale health_probe =
  fixes probe :: "'t \<Rightarrow> 'b \<Rightarrow> bool \<times> 'b" and up :: "'t \<Rightarrow> 'b \<Rightarrow> bool"
  assumes probe_result: "fst (probe t b) = up t b"
    and probe_down: "\<not> up t b \<Longrightarrow> snd (probe t b) = b"
begin

fun walk :: "(nat \<Rightarrow> 't) \<Rightarrow> nat \<Rightarrow> nat list \<Rightarrow> 'b list \<Rightarrow> nat option \<times> 'b list" where
  "walk clk i [] bs = (None, bs)"
| "walk clk i (j # js) bs =
     (let (ok, b) = probe (clk i) (bs ! j)
      in if ok then (Some j, bs[j := b]) else walk clk (Suc i) js (bs[j := b]))"

lemma walk_Cons:
  "walk clk i (j # js) bs =
     (if up (clk i) (bs ! j) then (Some j, bs[j := snd (probe (clk i) (bs ! j))])
      else walk clk (Suc i) js bs)"
  using probe_result [of "clk i" "bs ! j"] probe_down [of "clk i" "bs ! j"]
  by (auto split: prod.splits)

lemma walk_None:
  "fst (walk clk i js bs) = None \<longleftrightarrow> (\<forall>k < length js. \<not> up (clk (i + k)) (bs ! (js ! k)))"
proof (induction js arbitrary: i)
  case (Cons j js)
  then show ?case
    by (auto simp: walk_Cons less_Suc_eq_0_disj simp del: walk.simps)
qed simp

lemma walk_None_same: "fst (walk clk i js bs) = None \<Longrightarrow> snd (walk clk i js bs) = bs"
  by (induction js arbitrary: i) (auto simp: walk_Cons simp del: walk.simps(2) split: if_splits)

lemma walk_Some:
  assumes "fst (walk clk i js bs) = Some j"
  obtains k where "k < length js" and "js ! k = j" and "up (clk (i + k)) (bs ! j)"
    and "\<forall>m < k. \<not> up (clk (i + m)) (bs ! (js ! m))"
    and "snd (walk clk i js bs) = bs[j := snd (probe (clk (i + k)) (bs ! j))]"
  using assms
proof (induction js arbitrary: i thesis)
  case (Cons j' js)
  show ?case
  proof (cases "up (clk i) (bs ! j')")
    case True
    with Cons.prems show ?thesis by (intro Cons.prems(1) [of 0]) (auto simp: walk_Cons simp del: walk.simps)
  next
    case False
    with Cons.prems(2) have "fst (walk clk (Suc i) js bs) = Some j"
      by (simp add: walk_Cons del: walk.simps)
    then obtain k where k: "k < length js" "js ! k = j" "up (clk (Suc i + k)) (bs ! j)"
      "\<forall>m < k. \<not> up (clk (Suc i + m)) (bs ! (js ! m))"
      "snd (walk clk (Suc i) js bs) = bs[j := snd (probe (clk (Suc i + k)) (bs ! j))]"
      using Cons.IH [of "Suc i"] by blast
    with False show ?thesis
      by (intro Cons.prems(1) [of "Suc k"])
        (auto simp: walk_Cons less_Suc_eq_0_disj simp del: walk.simps)
  qed
qed simp

lemma walk_hit:
  "k < length js \<Longrightarrow> up (clk (i + k)) (bs ! (js ! k)) \<Longrightarrow>
   \<forall>m < k. \<not> up (clk (i + m)) (bs ! (js ! m)) \<Longrightarrow> fst (walk clk i js bs) = Some (js ! k)"
proof (induction js arbitrary: i k)
  case (Cons j js)
  show ?case
  proof (cases k)
    case 0
    with Cons.prems show ?thesis by (simp add: walk_Cons del: walk.simps)
  next
    case (Suc k')
    with Cons.prems have "\<not> up (clk i) (bs ! j)" by force
    moreover have "fst (walk clk (Suc i) js bs) = Some (js ! k')"
      using Cons.prems Suc by (intro Cons.IH) auto
    ultimately show ?thesis using Suc by (simp add: walk_Cons del: walk.simps)
  qed
qed simp

lemma walk_Some_iff:
  "fst (walk clk i js bs) = Some j \<longleftrightarrow>
   (\<exists>k < length js. js ! k = j \<and> up (clk (i + k)) (bs ! j) \<and>
      (\<forall>m < k. \<not> up (clk (i + m)) (bs ! (js ! m))))"
  using walk_hit [of _ js clk i bs] by (auto elim!: walk_Some)

end

definition healthy_at :: "u64 \<Rightarrow> backend \<Rightarrow> bool" where
  "healthy_at now b \<longleftrightarrow> \<not> b_circuit_open b \<or> CB_RESET_SECS \<le> now - b_last_failure b"

interpretation hp: health_probe is_healthy healthy_at
  by unfold_locales (auto simp: is_healthy_def healthy_at_def Let_def)

lemma is_healthy_frame [frame_simps]:
  "b_url (snd (is_healthy t b)) = b_url b" "b_active (snd (is_healthy t b)) = b_active b"
  "b_last_failure (snd (is_healthy t b)) = b_last_failure b"
  by (simp_all add: is_healthy_def Let_def)

section \<open>The strategies as walks and minima\<close>

lemma map_update_id: "f y = f (xs ! i) \<Longrightarrow> map f (xs[i := y]) = map f xs"
  by (cases "i < length xs") (simp_all add: map_update list_update_same_conv list_update_beyond)

definition rr_slots :: "usize \<Rightarrow> nat \<Rightarrow> nat \<Rightarrow> nat list" where
  "rr_slots c n k = map (\<lambda>m. unat (c + of_nat m) mod n) [0..<k]"

definition ih_slots :: "nat \<Rightarrow> nat \<Rightarrow> nat \<Rightarrow> nat \<Rightarrow> nat list" where
  "ih_slots h n i k = map (\<lambda>m. (h + (i + m)) mod n) [0..<k]"

lemma rr_slots_Suc: "rr_slots c n (Suc k) = unat c mod n # rr_slots (c + 1) n k"
  by (simp add: rr_slots_def map_upt_Suc add_ac del: upt_Suc)

lemma ih_slots_Suc: "ih_slots h n i (Suc k) = (h + i) mod n # ih_slots h n (Suc i) k"
  by (simp add: ih_slots_def map_upt_Suc del: upt_Suc)

lemma probe_pair: "is_healthy t b = (healthy_at t b, snd (is_healthy t b))"
  by (simp add: prod_eq_iff hp.probe_result)

lemma rr_loop_Suc:
  "rr_loop clk (Suc k) i lb =
     (let idx = unat (lb_cursor lb) mod length (lb_backends lb); b = lb_backends lb ! idx;
          lb' = lb\<lparr>lb_cursor := lb_cursor lb + 1,
                   lb_backends := (lb_backends lb)[idx := snd (is_healthy (clk i) b)]\<rparr>
      in if healthy_at (clk i) b then (Some idx, lb') else rr_loop clk k (Suc i) lb')"
  by (subst rr_loop.simps, subst probe_pair) (simp add: Let_def)

lemma ih_loop_Suc:
  "ih_loop clk h (Suc k) i lb =
     (let idx = (h + i) mod length (lb_backends lb); b = lb_backends lb ! idx;
          lb' = lb\<lparr>lb_backends := (lb_backends lb)[idx := snd (is_healthy (clk i) b)]\<rparr>
      in if healthy_at (clk i) b then (Some idx, lb') else ih_loop clk h k (Suc i) lb')"
  by (subst ih_loop.simps, subst probe_pair) (simp add: Let_def)

declare rr_loop.simps(2) [simp del] ih_loop.simps(2) [simp del]

lemma rr_loop_walk:
  "fst (rr_loop clk k i lb) =
     fst (hp.walk clk i (rr_slots (lb_cursor lb) (length (lb_backends lb)) k) (lb_backends lb)) \<and>
   lb_backends (snd (rr_loop clk k i lb)) =
     snd (hp.walk clk i (rr_slots (lb_cursor lb) (length (lb_backends lb)) k) (lb_backends lb))"
proof (induction k arbitrary: i lb)
  case 0
  show ?case by (simp add: rr_slots_def)
next
  case (Suc k)
  let ?b = "lb_backends lb ! (unat (lb_cursor lb) mod length (lb_backends lb))"
  show ?case
  proof (cases "healthy_at (clk i) ?b")
    case False
    then have "snd (is_healthy (clk i) ?b) = ?b" by (rule hp.probe_down)
    with False Suc.IH [of "Suc i" "lb\<lparr>lb_cursor := lb_cursor lb + 1\<rparr>"] show ?thesis
      by (simp add: rr_loop_Suc rr_slots_Suc hp.walk_Cons Let_def del: hp.walk.simps)
  qed (simp add: rr_loop_Suc rr_slots_Suc hp.walk_Cons Let_def del: hp.walk.simps)
qed

lemma ih_loop_walk:
  "fst (ih_loop clk h k i lb) =
     fst (hp.walk clk i (ih_slots h (length (lb_backends lb)) i k) (lb_backends lb)) \<and>
   lb_backends (snd (ih_loop clk h k i lb)) =
     snd (hp.walk clk i (ih_slots h (length (lb_backends lb)) i k) (lb_backends lb))"
proof (induction k arbitrary: i lb)
  case 0
  show ?case by (simp add: ih_slots_def)
next
  case (Suc k)
  let ?b = "lb_backends lb ! ((h + i) mod length (lb_backends lb))"
  show ?case
  proof (cases "healthy_at (clk i) ?b")
    case False
    then have "snd (is_healthy (clk i) ?b) = ?b" by (rule hp.probe_down)
    with False Suc.IH [of "Suc i" lb] show ?thesis
      by (simp add: ih_loop_Suc ih_slots_Suc hp.walk_Cons Let_def del: hp.walk.simps)
  qed (simp add: ih_loop_Suc ih_slots_Suc hp.walk_Cons Let_def del: hp.walk.simps)
qed

lemma walk_frame:
  assumes "\<And>t b. f (snd (is_healthy t b)) = f b"
  shows "map f (snd (hp.walk clk i js bs)) = map f bs"
proof (cases "fst (hp.walk clk i js bs)")
  case None
  then show ?thesis using hp.walk_None_same by force
next
  case (Some j)
  then obtain k where "snd (hp.walk clk i js bs) = bs[j := snd (is_healthy (clk (i + k)) (bs ! j))]"
    by (rule hp.walk_Some)
  then show ?thesis using assms by (simp add: map_update_id)
qed

text \<open>One step of the fold inside \<^verbatim>\<open>min_by_key\<close>.\<close>

definition lc_best :: "nat \<Rightarrow> u64 \<Rightarrow> backend \<Rightarrow> (nat \<times> usize) option \<Rightarrow> (nat \<times> usize) option" where
  "lc_best i t b best =
     (if healthy_at t b then
        (case best of
           None \<Rightarrow> Some (i, b_active b)
         | Some (j, a) \<Rightarrow> if b_active b < a then Some (i, b_active b) else Some (j, a))
      else best)"

lemma lc_loop_Cons:
  "lc_loop clk i (b # bs) best =
     (fst (lc_loop clk (Suc i) bs (lc_best i (clk i) b best)),
      snd (is_healthy (clk i) b) # snd (lc_loop clk (Suc i) bs (lc_best i (clk i) b best)))"
  by (subst lc_loop.simps, subst probe_pair)
    (simp add: Let_def lc_best_def active_count_def is_healthy_frame case_prod_beta
      cong: option.case_cong if_cong)

declare lc_loop.simps(2) [simp del]

lemma lc_loop_backends:
  "length (snd (lc_loop clk i bs best)) = length bs \<and>
   (\<forall>k < length bs. snd (lc_loop clk i bs best) ! k = snd (is_healthy (clk (i + k)) (bs ! k)))"
proof (induction bs arbitrary: i best)
  case (Cons b bs)
  show ?case
    using Cons.IH [of "Suc i" "lc_best i (clk i) b best"]
    by (auto simp: lc_loop_Cons nth_Cons split: nat.splits)
qed simp

lemma lc_loop_frame:
  assumes "\<And>t b. f (snd (is_healthy t b)) = f b"
  shows "map f (snd (lc_loop clk i bs best)) = map f bs"
  by (rule nth_equalityI) (simp_all add: lc_loop_backends assms)

text \<open>
  What the pass returns: the least loaded healthy backend, the earliest of equals, or the one it
  was given if none beats it.
\<close>

lemma lc_loop_None:
  "fst (lc_loop clk i bs best) = None \<longleftrightarrow>
     best = None \<and> (\<forall>k < length bs. \<not> healthy_at (clk (i + k)) (bs ! k))"
proof (induction bs arbitrary: i best)
  case (Cons b bs)
  then show ?case
    by (auto simp: lc_loop_Cons lc_best_def less_Suc_eq_0_disj split: option.splits)
qed simp

lemma lc_loop_Some:
  assumes "fst (lc_loop clk i bs best) = Some (j, a)"
  shows "(best = Some (j, a) \<or>
      (\<exists>k < length bs. j = i + k \<and> healthy_at (clk j) (bs ! k) \<and> a = b_active (bs ! k) \<and>
         (\<forall>j' a'. best = Some (j', a') \<longrightarrow> a < a') \<and>
         (\<forall>m < k. healthy_at (clk (i + m)) (bs ! m) \<longrightarrow> a < b_active (bs ! m)))) \<and>
    (\<forall>m < length bs. healthy_at (clk (i + m)) (bs ! m) \<longrightarrow> a \<le> b_active (bs ! m)) \<and>
    (\<forall>j' a'. best = Some (j', a') \<longrightarrow> a \<le> a')"
  using assms
proof (induction bs arbitrary: i best)
  case (Cons b bs)
  let ?best = "lc_best i (clk i) b best"
  have "fst (lc_loop clk (Suc i) bs ?best) = Some (j, a)"
    using Cons.prems by (simp add: lc_loop_Cons)
  note IH = Cons.IH [OF this]
  have up: "\<And>j' a'. best = Some (j', a') \<Longrightarrow> \<exists>j'' a''. ?best = Some (j'', a'') \<and> a'' \<le> a'"
    by (auto simp: lc_best_def)
  have here: "healthy_at (clk i) b \<Longrightarrow> \<exists>j'' a''. ?best = Some (j'', a'') \<and> a'' \<le> b_active b"
    by (auto simp: lc_best_def split: option.splits)
  have all: "\<forall>m < length (b # bs). healthy_at (clk (i + m)) ((b # bs) ! m) \<longrightarrow> a \<le> b_active ((b # bs) ! m)"
    using IH here by (auto simp: less_Suc_eq_0_disj intro: order_trans)
  have le: "\<forall>j' a'. ?best = Some (j', a') \<longrightarrow> a \<le> a'" using IH by blast
  have bst: "\<forall>j' a'. best = Some (j', a') \<longrightarrow> a \<le> a'"
  proof (intro allI impI)
    fix j' a'
    assume "best = Some (j', a')"
    then obtain j'' a'' where "?best = Some (j'', a'')" "a'' \<le> a'" using up by blast
    with le show "a \<le> a'" by (blast intro: order_trans)
  qed
  have "best = Some (j, a) \<or>
      (\<exists>k < length (b # bs). j = i + k \<and> healthy_at (clk j) ((b # bs) ! k) \<and> a = b_active ((b # bs) ! k) \<and>
         (\<forall>j' a'. best = Some (j', a') \<longrightarrow> a < a') \<and>
         (\<forall>m < k. healthy_at (clk (i + m)) ((b # bs) ! m) \<longrightarrow> a < b_active ((b # bs) ! m)))"
  proof (cases "?best = Some (j, a)")
    case True
    then consider "best = Some (j, a)"
      | "healthy_at (clk i) b" "j = i" "a = b_active b" "\<forall>j' a'. best = Some (j', a') \<longrightarrow> a < a'"
      by (auto simp: lc_best_def split: if_splits option.splits)
    then show ?thesis by cases auto
  next
    case False
    with IH obtain k where k: "k < length bs" "j = Suc i + k" "healthy_at (clk j) (bs ! k)"
      "a = b_active (bs ! k)" "\<forall>j' a'. ?best = Some (j', a') \<longrightarrow> a < a'"
      "\<forall>m < k. healthy_at (clk (Suc i + m)) (bs ! m) \<longrightarrow> a < b_active (bs ! m)"
      by blast
    have "\<forall>j' a'. best = Some (j', a') \<longrightarrow> a < a'"
    proof (intro allI impI)
      fix j' a'
      assume "best = Some (j', a')"
      then obtain j'' a'' where "?best = Some (j'', a'')" "a'' \<le> a'" using up by blast
      with k(5) show "a < a'" by (blast intro: less_le_trans)
    qed
    moreover have "healthy_at (clk i) b \<Longrightarrow> a < b_active b"
    proof -
      assume "healthy_at (clk i) b"
      then obtain j'' a'' where "?best = Some (j'', a'')" "a'' \<le> b_active b" using here by blast
      with k(5) show "a < b_active b" by (blast intro: less_le_trans)
    qed
    ultimately show ?thesis
      using k by (intro disjI2 exI [of _ "Suc k"]) (auto simp: less_Suc_eq_0_disj)
  qed
  with all bst show ?case by blast
qed simp

section \<open>A selection\<close>

text \<open>The strategy's choice, before the guard is taken.\<close>

definition pick :: "(nat \<Rightarrow> u64) \<Rightarrow> ip_addr option \<Rightarrow> load_balancer \<Rightarrow> nat option \<times> load_balancer" where
  "pick clk ip lb =
     (case lb_strategy lb of
        RoundRobin \<Rightarrow> round_robin clk lb
      | LeastConnections \<Rightarrow> least_connections clk lb
      | IpHash \<Rightarrow> ip_hash clk ip lb)"

lemmas pick_defs = pick_def round_robin_def least_connections_def ip_hash_def

lemma select_pick:
  "select clk ip lb =
     (if lb_backends lb = [] then (None, lb)
      else case fst (pick clk ip lb) of
             None \<Rightarrow> (None, snd (pick clk ip lb))
           | Some i \<Rightarrow> (Some (b_url (lb_backends (snd (pick clk ip lb)) ! i), i),
                        update_backend i acquire (snd (pick clk ip lb))))"
  unfolding select_def pick_def [symmetric] by (simp add: case_prod_beta Let_def)

lemma rr_loop_strategy [simp]: "lb_strategy (snd (rr_loop clk k i lb)) = lb_strategy lb"
  by (induction k arbitrary: i lb) (auto simp: rr_loop_Suc Let_def)

lemma ih_loop_strategy [simp]:
  "lb_strategy (snd (ih_loop clk h k i lb)) = lb_strategy lb"
  "lb_cursor (snd (ih_loop clk h k i lb)) = lb_cursor lb"
  by (induction k arbitrary: i lb) (auto simp: ih_loop_Suc Let_def)

lemma pick_strategy [frame_simps]: "lb_strategy (snd (pick clk ip lb)) = lb_strategy lb"
  by (simp add: pick_defs case_prod_beta Let_def split: load_balance.splits)

lemma pick_frame:
  assumes "\<And>t b. f (snd (is_healthy t b)) = f b"
  shows "map f (lb_backends (snd (pick clk ip lb))) = map f (lb_backends lb)"
  using walk_frame [of f, OF assms] lc_loop_frame [of f, OF assms]
  by (simp add: pick_defs rr_loop_walk ih_loop_walk case_prod_beta Let_def split: load_balance.splits)

lemma pick_length [frame_simps]:
  "length (lb_backends (snd (pick clk ip lb))) = length (lb_backends lb)"
  using pick_frame [of b_url clk ip lb] by (metis is_healthy_frame(1) length_map)

lemma pick_nth [frame_simps]:
  assumes "i < length (lb_backends lb)"
  shows "b_url (lb_backends (snd (pick clk ip lb)) ! i) = b_url (lb_backends lb ! i)"
    and "b_active (lb_backends (snd (pick clk ip lb)) ! i) = b_active (lb_backends lb ! i)"
  using pick_frame [of b_url clk ip lb] pick_frame [of b_active clk ip lb] assms
  by (metis is_healthy_frame nth_map pick_length)+

text \<open>The slots of a walk are indices of backends.\<close>

lemma slots_in_range:
  "0 < n \<Longrightarrow> j \<in> set (rr_slots c n k) \<Longrightarrow> j < n" "0 < n \<Longrightarrow> j \<in> set (ih_slots h n i k) \<Longrightarrow> j < n"
  by (auto simp: rr_slots_def ih_slots_def)

lemma slots_nth [simp]:
  "m < k \<Longrightarrow> rr_slots c n k ! m = unat (c + of_nat m) mod n"
  "m < k \<Longrightarrow> ih_slots h n i k ! m = (h + (i + m)) mod n"
  "length (rr_slots c n k) = k" "length (ih_slots h n i k) = k"
  by (simp_all add: rr_slots_def ih_slots_def)

lemma pick_Some:
  assumes "fst (pick clk ip lb) = Some i" and "lb_backends lb \<noteq> []"
  obtains k where "i < length (lb_backends lb)" and "healthy_at (clk k) (lb_backends lb ! i)"
proof -
  let ?n = "length (lb_backends lb)"
  have n: "0 < ?n" using assms(2) by simp
  show thesis
  proof (cases "lb_strategy lb")
    case RoundRobin
    then have "fst (hp.walk clk 0 (rr_slots (lb_cursor lb) ?n ?n) (lb_backends lb)) = Some i"
      using assms(1) by (simp add: pick_defs rr_loop_walk)
    then show thesis
      using slots_in_range(1) [OF n] by (elim hp.walk_Some) (metis add_0 nth_mem that)
  next
    case LeastConnections
    then obtain a where "fst (lc_loop clk 0 (lb_backends lb) None) = Some (i, a)"
      using assms(1) by (auto simp: pick_defs case_prod_beta Let_def)
    from lc_loop_Some [OF this] show thesis using that by auto
  next
    case IpHash
    then have "fst (hp.walk clk 0 (ih_slots (unat (hash_of ip)) ?n 0 ?n) (lb_backends lb)) = Some i"
      using assms(1) by (simp add: pick_defs ih_loop_walk)
    then show thesis
      using slots_in_range(2) [OF n] by (elim hp.walk_Some) (metis add_0 nth_mem that)
  qed
qed

lemma select_hit:
  assumes "fst (select clk ip lb) = Some (url, i)"
  obtains k where "i < length (lb_backends lb)" and "url = b_url (lb_backends lb ! i)"
    and "healthy_at (clk k) (lb_backends lb ! i)"
proof -
  have ne: "lb_backends lb \<noteq> []" using assms by (auto simp: select_pick)
  then have p: "fst (pick clk ip lb) = Some i" "url = b_url (lb_backends (snd (pick clk ip lb)) ! i)"
    using assms by (auto simp: select_pick split: option.splits)
  obtain k where "i < length (lb_backends lb)" "healthy_at (clk k) (lb_backends lb ! i)"
    by (rule pick_Some [OF p(1) ne])
  with p(2) show thesis by (intro that) (simp_all add: frame_simps)
qed

text \<open>\<open>n\<close> consecutive numbers hit every residue modulo \<open>n\<close>.\<close>

lemma residue_hit:
  assumes "j < (n::nat)"
  obtains k where "k < n" and "(c + k) mod n = j"
proof
  show "(j + n - c mod n) mod n < n" using assms by simp
  have "c mod n \<le> n" using assms by (simp add: less_imp_le)
  then have "c mod n + (j + n - c mod n) = j + n" by simp
  moreover have "(c + (j + n - c mod n) mod n) mod n = (c mod n + (j + n - c mod n)) mod n"
    by (simp add: mod_simps)
  ultimately show "(c + (j + n - c mod n) mod n) mod n = j" using assms by simp
qed

end
