(* ===== verification/Breaker.thy ===== *)
theory Breaker
  imports LoadBalancer
begin

text \<open>
  The circuit breaker of one backend, \<^verbatim>\<open>Backend\<close> of \<^verbatim>\<open>src/src/load_balancer.rs\<close>: its state over any
  history of calls, against a reference that keeps the failures that count; how long an outage lasts;
  what a reset does.
\<close>

section \<open>The circuit breaker\<close>

datatype outcome = Succeeded | Failed u64

fun observe :: "backend \<Rightarrow> outcome \<Rightarrow> backend" where
  "observe b Succeeded = record_success b"
| "observe b (Failed now) = record_failure now b"

definition observe_all :: "backend \<Rightarrow> outcome list \<Rightarrow> backend" where
  "observe_all b os = foldl observe b os"

definition is_failure :: "outcome \<Rightarrow> bool" where
  "is_failure x = (case x of Succeeded \<Rightarrow> False | Failed _ \<Rightarrow> True)"

text \<open>The failures since the last success.\<close>

definition streak :: "outcome list \<Rightarrow> nat" where
  "streak os = length (takeWhile is_failure (rev os))"

lemma observe_all_snoc [simp]: "observe_all b (os @ [x]) = observe (observe_all b os) x"
  by (simp add: observe_all_def)

lemma observe_all_Nil [simp]: "observe_all b [] = b"
  by (simp add: observe_all_def)

lemma streak_simps [simp]:
  "streak [] = 0" "streak (os @ [Succeeded]) = 0" "streak (os @ [Failed t]) = Suc (streak os)"
  by (simp_all add: streak_def is_failure_def)

lemma record_failure_simps [step_simps]:
  "b_failures (record_failure now b) = b_failures b + 1"
  "b_last_failure (record_failure now b) = now"
  "b_circuit_open (record_failure now b) \<longleftrightarrow> b_circuit_open b \<or> CB_THRESHOLD \<le> b_failures b + 1"
  "b_url (record_failure now b) = b_url b" "b_active (record_failure now b) = b_active b"
  by (auto simp: record_failure_def Let_def)

lemma record_success_simps [step_simps]:
  "b_failures (record_success b) = 0" "\<not> b_circuit_open (record_success b)"
  "b_url (record_success b) = b_url b" "b_active (record_success b) = b_active b"
  by (auto simp: record_success_def)

lemma observe_frame [frame_simps]:
  "b_url (observe b x) = b_url b" "b_active (observe b x) = b_active b"
  by (cases x; simp add: step_simps)+

text \<open>
  The counter is the length of the failure streak (on 64 bits), and the circuit is open exactly
  when the counter has been at the threshold during the streak.
\<close>

lemma observe_all_state:
  assumes "b_failures b = 0" and "\<not> b_circuit_open b"
  shows "b_failures (observe_all b os) = of_nat (streak os) \<and>
    (b_circuit_open (observe_all b os) \<longleftrightarrow>
       (\<exists>j. 1 \<le> j \<and> j \<le> streak os \<and> CB_THRESHOLD \<le> of_nat j))"
proof (induction os rule: rev_induct)
  case Nil
  with assms show ?case by simp
next
  case (snoc x os)
  then show ?case
    by (cases x) (auto simp: step_simps add.commute le_Suc_eq)
qed

lemma threshold_reached:
  "(\<exists>j. 1 \<le> j \<and> j \<le> k \<and> CB_THRESHOLD \<le> (of_nat j :: usize)) \<longleftrightarrow> 5 \<le> k"
proof
  assume "\<exists>j. 1 \<le> j \<and> j \<le> k \<and> CB_THRESHOLD \<le> (of_nat j :: usize)"
  then obtain j where j: "j \<le> k" "CB_THRESHOLD \<le> (of_nat j :: usize)" by blast
  have "5 \<le> j"
  proof (rule ccontr)
    assume "\<not> 5 \<le> j"
    then have "j \<in> {0, 1, 2, 3, 4}" by auto
    with j(2) show False by (auto simp: CB_THRESHOLD_def word_le_nat_alt)
  qed
  with j(1) show "5 \<le> k" by simp
next
  assume "5 \<le> k"
  then show "\<exists>j. 1 \<le> j \<and> j \<le> k \<and> CB_THRESHOLD \<le> (of_nat j :: usize)"
    by (intro exI [of _ 5]) (simp add: CB_THRESHOLD_def)
qed

section \<open>Every history of a backend\<close>

text \<open>
  The calls of the methods of \<^verbatim>\<open>Backend\<close>: its atomics are private, so nothing else changes its state.
\<close>

datatype backend_call = Acquires | Releases | Succeeds | Fails u64 | Checks u64

fun call :: "backend \<Rightarrow> backend_call \<Rightarrow> backend" where
  "call b Acquires = acquire b"
| "call b Releases = release b"
| "call b Succeeds = record_success b"
| "call b (Fails now) = record_failure now b"
| "call b (Checks now) = snd (is_healthy now b)"

definition calls :: "backend \<Rightarrow> backend_call list \<Rightarrow> backend" where
  "calls b cs = foldl call b cs"

text \<open>
  The reference: the times of the failures that count. A success clears them, and so does a check
  that comes 30 seconds or more after the last of five or more.
\<close>

fun count_call :: "u64 list \<Rightarrow> backend_call \<Rightarrow> u64 list" where
  "count_call ts (Fails t) = ts @ [t]"
| "count_call ts Succeeds = []"
| "count_call ts (Checks t) = (if 5 \<le> length ts \<and> 30 \<le> t - last ts then [] else ts)"
| "count_call ts Acquires = ts"
| "count_call ts Releases = ts"

definition counted :: "backend_call list \<Rightarrow> u64 list" where
  "counted cs = foldl count_call [] cs"

lemma calls_simps [simp]:
  "calls b [] = b" "calls b (cs @ [c]) = call (calls b cs) c" "calls b (cs @ ds) = calls (calls b cs) ds"
  "calls b [c] = call b c"
  by (simp_all add: calls_def)

lemma counted_simps [simp]:
  "counted [] = []" "counted (cs @ [c]) = count_call (counted cs) c"
  "counted (cs @ ds) = foldl count_call (counted cs) ds"
  by (simp_all add: counted_def)

lemma call_frame [frame_simps]: "b_url (call b c) = b_url b"
  by (cases c) (simp_all add: acquire_def release_def step_simps is_healthy_frame)

lemma threshold_small: "n < 5 \<Longrightarrow> CB_THRESHOLD \<le> (of_nat n + 1 :: usize) \<longleftrightarrow> 4 \<le> n"
proof -
  assume "n < 5"
  then have "n \<in> {0, 1, 2, 3, 4}" by auto
  then show ?thesis by (auto simp: CB_THRESHOLD_def word_le_nat_alt)
qed

lemma is_healthy_simps [step_simps]:
  "b_circuit_open (snd (is_healthy t b)) \<longleftrightarrow> b_circuit_open b \<and> \<not> 30 \<le> t - b_last_failure b"
  "b_failures (snd (is_healthy t b)) =
     (if b_circuit_open b \<and> 30 \<le> t - b_last_failure b then 0 else b_failures b)"
  by (simp_all add: is_healthy_def CB_RESET_SECS_def Let_def)

lemma calls_state:
  assumes "b_failures b = 0" and "\<not> b_circuit_open b"
  shows "b_failures (calls b cs) = of_nat (length (counted cs)) \<and>
    (b_circuit_open (calls b cs) \<longleftrightarrow> 5 \<le> length (counted cs)) \<and>
    (counted cs \<noteq> [] \<longrightarrow> b_last_failure (calls b cs) = last (counted cs))"
proof (induction cs rule: rev_induct)
  case (snoc c cs)
  then show ?case
    using threshold_small [of "length (counted cs)"]
    by (cases c) (auto simp: step_simps frame_simps acquire_def release_def add.commute not_le)
qed (simp add: assms)

lemma counted_consecutive:
  "\<exists>pre post. cs = pre @ post \<and> Succeeds \<notin> set post \<and> counted cs = [t. Fails t \<leftarrow> post]"
proof (induction cs rule: rev_induct)
  case (snoc c cs)
  then obtain pre post where cs: "cs = pre @ post" "Succeeds \<notin> set post" "counted cs = [t. Fails t \<leftarrow> post]"
    by blast
  have "\<exists>pre' post'. cs @ [c] = pre' @ post' \<and> Succeeds \<notin> set post' \<and> [] = [t. Fails t \<leftarrow> post']"
    by (intro exI [of _ "cs @ [c]"] exI [of _ "[]"]) simp
  moreover have "\<exists>pre' post'. cs @ [c] = pre' @ post' \<and> Succeeds \<notin> set post' \<and>
      [t. Fails t \<leftarrow> post @ [c]] = [t. Fails t \<leftarrow> post']" if "c \<noteq> Succeeds"
    using cs that by (intro exI [of _ pre] exI [of _ "post @ [c]"]) simp
  ultimately show ?case using cs(3) by (cases c) (auto split: if_splits)
qed simp

text \<open>
  C9: Over every history of a backend, whatever is called in whatever order and at whatever clock
  readings, the circuit is open exactly when five or more failures count, that is failures in a row,
  with no success between them, since the last reset; and a check lets traffic through exactly when
  the circuit is closed or the last failure is 30 seconds or more ago on the clock.
\<close>

theorem circuit_opens_after_five:
  "(b_circuit_open (calls (backend_new url) cs) \<longleftrightarrow> 5 \<le> length (counted cs)) \<and>
   (fst (is_healthy now (calls (backend_new url) cs)) \<longleftrightarrow>
      length (counted cs) < 5 \<or> 30 \<le> now - last (counted cs)) \<and>
   (\<exists>pre post. cs = pre @ post \<and> Succeeds \<notin> set post \<and> counted cs = [t. Fails t \<leftarrow> post])"
proof -
  have open_iff: "b_circuit_open (calls (backend_new url) cs) \<longleftrightarrow> 5 \<le> length (counted cs)"
    and "counted cs \<noteq> [] \<Longrightarrow> b_last_failure (calls (backend_new url) cs) = last (counted cs)"
    using calls_state [of "backend_new url" cs] by (simp_all add: backend_new_def)
  then have "fst (is_healthy now (calls (backend_new url) cs)) \<longleftrightarrow>
      length (counted cs) < 5 \<or> 30 \<le> now - last (counted cs)"
    by (cases "counted cs = []") (auto simp: hp.probe_result healthy_at_def CB_RESET_SECS_def)
  with open_iff counted_consecutive [of cs] show ?thesis by blast
qed

text \<open>When no check comes in between, the failures that count are the current streak.\<close>

fun as_call :: "outcome \<Rightarrow> backend_call" where
  "as_call Succeeded = Succeeds"
| "as_call (Failed now) = Fails now"

lemma observe_call: "observe b x = call b (as_call x)"
  by (cases x) simp_all

lemma counted_streak: "length (counted (map as_call os)) = streak os"
proof (induction os rule: rev_induct)
  case (snoc x os)
  then show ?case by (cases x) simp_all
qed simp

section \<open>Outages\<close>

text \<open>
  An open circuit keeps the backend out for 30 seconds from its last failure, as long as
  the clock has not gone back, and is tested again from then on.
\<close>

theorem open_circuit_blocks_30s:
  assumes "b_circuit_open b" and "b_last_failure b \<le> now"
  shows "fst (is_healthy now b) \<longleftrightarrow> 30 \<le> unat now - unat (b_last_failure b)"
  using assms
  by (simp add: hp.probe_result healthy_at_def CB_RESET_SECS_def word_le_nat_alt unat_sub)

theorem open_circuit_blocks_30s_witness:
  "b_circuit_open (observe_all (backend_new ''u'') (replicate 5 (Failed 100))) \<and>
   b_last_failure (observe_all (backend_new ''u'') (replicate 5 (Failed 100))) \<le> 129 \<and>
   \<not> fst (is_healthy 129 (observe_all (backend_new ''u'') (replicate 5 (Failed 100))))"
proof -
  let ?b = "observe_all (backend_new ''u'') (replicate 5 (Failed 100))"
  have b: "b_circuit_open ?b" "b_last_failure ?b = 100"
    by (simp_all add: observe_all_def numeral_eq_Suc step_simps backend_new_def CB_THRESHOLD_def)
  then show ?thesis using open_circuit_blocks_30s [of ?b 129] by simp
qed

lemma uint_unix_now:
  assumes "0 \<le> ns" and "ns < 2 ^ 64 * 1000000000"
  shows "uint (unix_now ns) = ns div 1000000000"
proof -
  have "ns div 1000000000 \<le> (2 ^ 64 * 1000000000 - 1) div 1000000000"
    by (rule zdiv_mono1) (use assms(2) in simp_all)
  then have "ns div 1000000000 < 2 ^ 64" by simp
  moreover have "0 \<le> ns div 1000000000" using assms(1) by (simp add: pos_imp_zdiv_nonneg_iff)
  ultimately have "uint (of_int (ns div 1000000000) :: u64) = ns div 1000000000"
    by (simp add: uint_word_of_int_eq take_bit_int_eq_self)
  with assms(1) show ?thesis by (simp add: unix_now_def)
qed

text \<open>
  C28: Measured on the system clock, an outage after the last failure of an open circuit lasts
  between 29 and 30 seconds (the code compares whole seconds): 29 seconds or less after it the
  backend is out, 30 seconds or more after it is tested again.
\<close>

theorem outage_lasts_30s:
  assumes "b_circuit_open b" and "b_last_failure b = unix_now t0"
    and "0 \<le> t0" and "t0 \<le> t1" and "t1 < 2 ^ 64 * 1000000000"
  shows "(t1 \<le> t0 + 29 * 1000000000 \<longrightarrow> \<not> fst (is_healthy (unix_now t1) b)) \<and>
    (t0 + 30 * 1000000000 \<le> t1 \<longrightarrow> fst (is_healthy (unix_now t1) b))"
proof -
  let ?G = "1000000000 :: int"
  have s: "uint (unix_now t0) = t0 div ?G" "uint (unix_now t1) = t1 div ?G"
    using assms by (simp_all add: uint_unix_now)
  have le: "t0 div ?G \<le> t1 div ?G" using assms(4) by (simp add: zdiv_mono1)
  then have "unix_now t0 \<le> unix_now t1" using s by (simp add: word_le_def)
  then have "uint (unix_now t1 - unix_now t0) = t1 div ?G - t0 div ?G"
    using s uint_sub_lem [of "unix_now t0" "unix_now t1"] by (simp add: word_le_def)
  then have h: "fst (is_healthy (unix_now t1) b) \<longleftrightarrow> 30 \<le> t1 div ?G - t0 div ?G"
    using assms(1,2) by (simp add: hp.probe_result healthy_at_def CB_RESET_SECS_def word_le_def)
  have "t1 div ?G \<le> (t0 + 29 * ?G) div ?G" if "t1 \<le> t0 + 29 * ?G" using that by (simp only: zdiv_mono1)
  moreover have "(t0 + 30 * ?G) div ?G \<le> t1 div ?G" if "t0 + 30 * ?G \<le> t1" using that by (simp only: zdiv_mono1)
  ultimately show ?thesis unfolding h by auto
qed

theorem outage_lasts_30s_witness:
  "\<not> fst (is_healthy (unix_now 128999999999)
     ((backend_new ''u'')\<lparr>b_circuit_open := True, b_last_failure := unix_now 100000000000\<rparr>))"
  using outage_lasts_30s
      [of "(backend_new ''u'')\<lparr>b_circuit_open := True, b_last_failure := unix_now 100000000000\<rparr>"
          100000000000 128999999999]
  by simp

text \<open>
  The reset is complete, not a single probe: after the 30 seconds a test closes the circuit
  and clears the counter, so the backend takes traffic until five more consecutive failures.
\<close>

theorem reset_needs_five_more_failures:
  assumes "b_circuit_open b" and "30 \<le> now - b_last_failure b"
  shows "fst (is_healthy now b) \<and>
    (b_circuit_open (observe_all (snd (is_healthy now b)) os) \<longleftrightarrow> 5 \<le> streak os)"
proof -
  have "b_failures (snd (is_healthy now b)) = 0 \<and> \<not> b_circuit_open (snd (is_healthy now b))"
    using assms by (simp add: is_healthy_def CB_RESET_SECS_def Let_def)
  then show ?thesis
    using assms observe_all_state [of "snd (is_healthy now b)" os] threshold_reached [of "streak os"]
    by (simp add: hp.probe_result healthy_at_def CB_RESET_SECS_def)
qed

theorem reset_needs_five_more_failures_witness:
  "fst (is_healthy 50 ((backend_new ''u'')\<lparr>b_circuit_open := True, b_last_failure := 20\<rparr>)) \<and>
   \<not> b_circuit_open (observe_all
       (snd (is_healthy 50 ((backend_new ''u'')\<lparr>b_circuit_open := True, b_last_failure := 20\<rparr>)))
       [Failed 51, Failed 52, Failed 53, Failed 54])"
  using reset_needs_five_more_failures
      [of "(backend_new ''u'')\<lparr>b_circuit_open := True, b_last_failure := 20\<rparr>" 50
          "[Failed 51, Failed 52, Failed 53, Failed 54]"]
  by (simp add: streak_def is_failure_def)

text \<open>
  If the system clock is set back after the last failure, the 64-bit difference wraps and an
  open circuit closes at once, however recent the failure was.
\<close>

theorem clock_step_back_closes_circuit:
  assumes "now < b_last_failure b" and "unat (b_last_failure b) - unat now \<le> 2 ^ 64 - 30"
  shows "fst (is_healthy now b) \<and> \<not> b_circuit_open (snd (is_healthy now b))"
proof -
  let ?l = "b_last_failure b"
  have less: "unat now < unat ?l" using assms(1) by (simp add: word_less_nat_alt)
  have bound: "unat ?l < 2 ^ LENGTH(64)" by (rule unsigned_less)
  have "unat (now - ?l) = 2 ^ 64 + unat now - unat ?l"
    using less bound by (simp add: unat_sub_if' del: unat_sub)
  then have "30 \<le> unat (now - ?l)" using assms(2) less bound by simp
  then have "CB_RESET_SECS \<le> now - ?l" by (simp add: CB_RESET_SECS_def word_le_nat_alt)
  then show ?thesis by (simp add: is_healthy_def Let_def)
qed

theorem clock_step_back_closes_circuit_witness:
  "(999 :: u64) < 1000 \<and>
   fst (is_healthy 999 ((backend_new ''u'')\<lparr>b_circuit_open := True, b_last_failure := 1000\<rparr>))"
  using clock_step_back_closes_circuit
      [of 999 "(backend_new ''u'')\<lparr>b_circuit_open := True, b_last_failure := 1000\<rparr>"]
  by simp

end
