(* ===== verification/BalancerProps.thy ===== *)
theory BalancerProps
  imports Breaker
begin

text \<open>
  What the load balancer of \<^verbatim>\<open>src/src/load_balancer.rs\<close> promises: the three strategies, the accounting
  of connection guards, what never changes, and where feedback goes.
\<close>

section \<open>The strategies\<close>

lemma all_slots_rr:
  assumes n: "0 < n" and no_wrap: "unat c + n \<le> 2 ^ 64"
  shows "(\<forall>m < n. P (rr_slots c n n ! m)) \<longleftrightarrow> (\<forall>j < n. P j)"
proof -
  have slot: "rr_slots c n n ! m = (unat c + m) mod n" if "m < n" for m
    using that no_wrap by (simp add: unat_word_ariths unat_of_nat)
  show ?thesis
  proof
    assume all: "\<forall>m < n. P (rr_slots c n n ! m)"
    show "\<forall>j < n. P j"
    proof (intro allI impI)
      fix j assume "j < n"
      then obtain m where "m < n" "(unat c + m) mod n = j" by (rule residue_hit)
      with all slot show "P j" by metis
    qed
  next
    assume "\<forall>j < n. P j"
    with n slot show "\<forall>m < n. P (rr_slots c n n ! m)" by simp
  qed
qed

lemma all_slots_ih:
  assumes n: "0 < n"
  shows "(\<forall>m < n. P (ih_slots h n 0 n ! m)) \<longleftrightarrow> (\<forall>j < n. P j)"
proof
  assume all: "\<forall>m < n. P (ih_slots h n 0 n ! m)"
  show "\<forall>j < n. P j"
  proof (intro allI impI)
    fix j assume "j < n"
    then obtain m where "m < n" "(h + m) mod n = j" by (rule residue_hit)
    with all show "P j" by force
  qed
qed (use n in simp)

lemma pick_None:
  assumes "lb_backends lb \<noteq> []"
    and "lb_strategy lb = RoundRobin \<Longrightarrow> unat (lb_cursor lb) + length (lb_backends lb) \<le> 2 ^ 64"
  shows "fst (pick (\<lambda>_. now) ip lb) = None \<longleftrightarrow> (\<forall>b \<in> set (lb_backends lb). \<not> healthy_at now b)"
proof -
  let ?n = "length (lb_backends lb)"
  let ?down = "\<lambda>j. \<not> healthy_at now (lb_backends lb ! j)"
  have n: "0 < ?n" using assms(1) by simp
  have all: "(\<forall>b \<in> set (lb_backends lb). \<not> healthy_at now b) \<longleftrightarrow> (\<forall>j < ?n. ?down j)"
    by (auto simp: set_conv_nth)
  show ?thesis
  proof (cases "lb_strategy lb")
    case RoundRobin
    then show ?thesis
      unfolding all using all_slots_rr [OF n assms(2), of ?down]
      by (simp add: pick_defs rr_loop_walk hp.walk_None)
  next
    case LeastConnections
    then show ?thesis
      unfolding all by (simp add: pick_defs case_prod_beta Let_def lc_loop_None)
  next
    case IpHash
    then show ?thesis
      unfolding all using all_slots_ih [OF n, of ?down "unat (hash_of ip)"]
      by (simp add: pick_defs ih_loop_walk hp.walk_None)
  qed
qed

text \<open>
  C13: A selection fails only when it must: with any strategy, and as long as the round-robin
  cursor is not about to wrap, no backend is returned if and only if none is healthy.
\<close>

theorem select_fails_iff_all_down:
  assumes "lb_strategy lb = RoundRobin \<Longrightarrow> unat (lb_cursor lb) + length (lb_backends lb) \<le> 2 ^ 64"
  shows "fst (select (\<lambda>_. now) ip lb) = None \<longleftrightarrow> (\<forall>b \<in> set (lb_backends lb). \<not> healthy_at now b)"
proof (cases "lb_backends lb = []")
  case False
  with pick_None [OF this assms, where now = now and ip = ip] show ?thesis
    by (auto simp: select_pick split: option.splits)
qed (simp add: select_pick)

theorem select_fails_iff_all_down_witness:
  "unat (lb_cursor \<lparr>lb_backends = [backend_new ''u''], lb_strategy = RoundRobin, lb_cursor = 7\<rparr>) + 1 \<le> 2 ^ 64 \<and>
   fst (select (\<lambda>_. 0) None
     \<lparr>lb_backends = [backend_new ''u''], lb_strategy = RoundRobin, lb_cursor = 7\<rparr>) \<noteq> None"
  using select_fails_iff_all_down
      [of "\<lparr>lb_backends = [backend_new ''u''], lb_strategy = RoundRobin, lb_cursor = 7\<rparr>" 0 None]
  by (simp add: healthy_at_def backend_new_def)

text \<open>
  What a selection returns: the URL of a backend that was healthy when probed, with one more
  active request on it and the count of every other backend unchanged.
\<close>

theorem select_sound:
  assumes "select clk ip lb = (Some (url, i), lb')"
  shows "i < length (lb_backends lb) \<and> url = b_url (lb_backends lb ! i) \<and>
    (\<exists>k. healthy_at (clk k) (lb_backends lb ! i)) \<and>
    map b_active (lb_backends lb') =
      (map b_active (lb_backends lb))[i := b_active (lb_backends lb ! i) + 1] \<and>
    map b_url (lb_backends lb') = map b_url (lb_backends lb)"
proof -
  let ?p = "snd (pick clk ip lb)"
  have ne: "lb_backends lb \<noteq> []" using assms by (auto simp: select_pick)
  then have p: "fst (pick clk ip lb) = Some i" "url = b_url (lb_backends ?p ! i)"
    "lb' = update_backend i acquire ?p"
    using assms by (auto simp: select_pick split: option.splits)
  obtain k where i: "i < length (lb_backends lb)" "healthy_at (clk k) (lb_backends lb ! i)"
    by (rule pick_Some [OF p(1) ne])
  have "map b_active (lb_backends lb') =
      (map b_active (lb_backends ?p))[i := b_active (lb_backends ?p ! i) + 1]"
    by (simp add: p(3) update_backend_def acquire_def map_update)
  moreover have "map b_active (lb_backends ?p) = map b_active (lb_backends lb)"
    by (rule pick_frame) (simp add: is_healthy_frame)
  moreover have "map b_url (lb_backends ?p) = map b_url (lb_backends lb)"
    by (rule pick_frame) (simp add: is_healthy_frame)
  moreover have "map b_url (lb_backends lb') = map b_url (lb_backends ?p)"
    by (simp add: p(3) update_backend_def acquire_def map_update_id)
  ultimately show ?thesis using i p(2) pick_nth [OF i(1), of clk ip] by auto
qed

theorem select_sound_witness:
  "b_url (backend_new ''u'') = ''u'' \<and>
   map b_active (lb_backends (snd (select (\<lambda>_. 0) None
      \<lparr>lb_backends = [backend_new ''u''], lb_strategy = IpHash, lb_cursor = 0\<rparr>))) = [1]"
proof -
  let ?lb = "\<lparr>lb_backends = [backend_new ''u''], lb_strategy = IpHash, lb_cursor = 0\<rparr>"
  have sel: "select (\<lambda>_. 0) None ?lb = (Some (''u'', 0), snd (select (\<lambda>_. 0) None ?lb))"
    by (simp add: select_pick pick_defs ih_loop_Suc hash_of_def healthy_at_def backend_new_def
        is_healthy_def)
  show ?thesis using select_sound [OF sel] by (simp add: backend_new_def)
qed

text \<open>With every circuit closed, round robin takes the slot under the cursor and moves on.\<close>

definition all_closed :: "load_balancer \<Rightarrow> bool" where
  "all_closed lb \<longleftrightarrow> (\<forall>b \<in> set (lb_backends lb). \<not> b_circuit_open b)"

lemma closed_probe: "\<not> b_circuit_open b \<Longrightarrow> is_healthy t b = (True, b)"
  by (simp add: is_healthy_def)

lemma closed_nth:
  "all_closed lb \<Longrightarrow> i < length (lb_backends lb) \<Longrightarrow> \<not> b_circuit_open (lb_backends lb ! i)"
  by (simp add: all_closed_def)

lemma all_closed_update:
  "all_closed lb \<Longrightarrow> (\<And>b. b_circuit_open (f b) = b_circuit_open b) \<Longrightarrow> all_closed (update_backend i f lb)"
  by (cases "i < length (lb_backends lb)")
    (auto simp: all_closed_def update_backend_def list_update_beyond
      dest!: set_update_subset_insert [THEN subsetD])

lemma select_round_robin:
  assumes "lb_strategy lb = RoundRobin" and "all_closed lb" and "lb_backends lb \<noteq> []"
  defines "i \<equiv> unat (lb_cursor lb) mod length (lb_backends lb)"
  shows "select clk ip lb =
    (Some (b_url (lb_backends lb ! i), i),
     update_backend i acquire (lb\<lparr>lb_cursor := lb_cursor lb + 1\<rparr>))"
proof -
  have i: "i < length (lb_backends lb)" using assms(3) by (simp add: i_def)
  obtain n where n: "length (lb_backends lb) = Suc n" using assms(3) by (cases "lb_backends lb") auto
  have "is_healthy (clk 0) (lb_backends lb ! i) = (True, lb_backends lb ! i)"
    using closed_nth [OF assms(2) i] by (rule closed_probe)
  then have "rr_loop clk (Suc n) 0 lb = (Some i, lb\<lparr>lb_cursor := lb_cursor lb + 1\<rparr>)"
    by (simp add: rr_loop.simps(2) Let_def flip: i_def)
  then show ?thesis
    using assms(1,3) by (simp add: select_pick pick_defs n)
qed

text \<open>A run of selections; the guards stay out.\<close>

fun select_run :: "(nat \<Rightarrow> u64) list \<Rightarrow> load_balancer \<Rightarrow> nat option list \<times> load_balancer" where
  "select_run [] lb = ([], lb)"
| "select_run (clk # clks) lb =
     (let (r, lb1) = select clk None lb; (rs, lb2) = select_run clks lb1
      in (map_option snd r # rs, lb2))"

text \<open>
  C25: Round robin is even: with all circuits closed and the cursor away from its wrap, the
  \<open>k\<close>-th of a run of selections takes the backend \<open>k\<close> places on in the circle, so \<open>n\<close> selections
  in a row use each of \<open>n\<close> backends once.
\<close>

theorem round_robin_cycles:
  assumes "lb_strategy lb = RoundRobin" and "all_closed lb" and "lb_backends lb \<noteq> []"
    and "unat (lb_cursor lb) + length clks \<le> 2 ^ 64"
  shows "fst (select_run clks lb) =
    map (\<lambda>k. Some ((unat (lb_cursor lb) + k) mod length (lb_backends lb))) [0..<length clks]"
  using assms
proof (induction clks arbitrary: lb)
  case (Cons clk clks)
  let ?n = "length (lb_backends lb)"
  let ?i = "unat (lb_cursor lb) mod ?n"
  let ?lb = "update_backend ?i acquire (lb\<lparr>lb_cursor := lb_cursor lb + 1\<rparr>)"
  have sel: "select clk None lb = (Some (b_url (lb_backends lb ! ?i), ?i), ?lb)"
    using Cons.prems by (intro select_round_robin) auto
  have closed: "all_closed ?lb"
    using all_closed_update [of "lb\<lparr>lb_cursor := lb_cursor lb + 1\<rparr>" acquire] Cons.prems(2)
    by (simp add: all_closed_def acquire_def)
  show ?case
  proof (cases clks)
    case Nil
    then show ?thesis by (simp add: sel)
  next
    case (Cons c cs)
    have cur: "unat (lb_cursor lb + 1) = Suc (unat (lb_cursor lb))"
      using Cons.prems(4) Cons by (simp add: unat_word_ariths)
    have "fst (select_run clks ?lb) =
        map (\<lambda>k. Some ((unat (lb_cursor ?lb) + k) mod length (lb_backends ?lb))) [0..<length clks]"
      using Cons.prems closed cur by (intro Cons.IH) (auto simp: update_backend_def)
    then show ?thesis
      by (simp add: sel case_prod_beta Let_def cur update_backend_def map_upt_Suc del: upt_Suc)
  qed
qed simp

theorem round_robin_cycles_witness:
  "fst (select_run [\<lambda>_. 0, \<lambda>_. 0, \<lambda>_. 0]
      \<lparr>lb_backends = [backend_new ''a'', backend_new ''b''], lb_strategy = RoundRobin, lb_cursor = 3\<rparr>)
    = [Some 1, Some 0, Some 1]"
  by (subst round_robin_cycles) (simp_all add: all_closed_def backend_new_def upt_rec flip: numeral_2_eq_2)

text \<open>
  C26: Least connections takes a healthy backend with the fewest active requests among the
  healthy ones, and of several such the first in the configured order.
\<close>

theorem least_connections_minimal:
  assumes "lb_strategy lb = LeastConnections" and "fst (select clk ip lb) = Some (url, i)"
  shows "i < length (lb_backends lb) \<and> healthy_at (clk i) (lb_backends lb ! i) \<and>
    (\<forall>k < length (lb_backends lb). healthy_at (clk k) (lb_backends lb ! k) \<longrightarrow>
       b_active (lb_backends lb ! i) \<le> b_active (lb_backends lb ! k) \<and>
       (k < i \<longrightarrow> b_active (lb_backends lb ! i) < b_active (lb_backends lb ! k)))"
proof -
  have "fst (pick clk ip lb) = Some i"
    using assms(2) by (auto simp: select_pick split: if_splits option.splits)
  then obtain a where "fst (lc_loop clk 0 (lb_backends lb) None) = Some (i, a)"
    using assms(1) by (auto simp: pick_defs case_prod_beta Let_def)
  from lc_loop_Some [OF this] show ?thesis by auto
qed

theorem least_connections_minimal_witness:
  "fst (select (\<lambda>_. 0) None
      \<lparr>lb_backends = [(backend_new ''a'')\<lparr>b_active := 2\<rparr>, (backend_new ''b'')\<lparr>b_active := 1\<rparr>],
       lb_strategy = LeastConnections, lb_cursor = 0\<rparr>) = Some (''b'', 1) \<and>
   (1 :: usize) \<le> 2"
proof -
  let ?lb = "\<lparr>lb_backends = [(backend_new ''a'')\<lparr>b_active := 2\<rparr>, (backend_new ''b'')\<lparr>b_active := 1\<rparr>],
       lb_strategy = LeastConnections, lb_cursor = 0\<rparr>"
  have sel: "fst (select (\<lambda>_. 0) None ?lb) = Some (''b'', 1)"
    by (simp add: select_pick pick_defs lc_loop_Cons lc_best_def healthy_at_def backend_new_def
        is_healthy_def)
  have "b_active (lb_backends ?lb ! 1) \<le> b_active (lb_backends ?lb ! 0)"
    using least_connections_minimal [OF _ sel] by (simp add: healthy_at_def backend_new_def)
  then show ?thesis using sel by simp
qed

text \<open>
  C27: IP hash is sticky: the choice is the first healthy backend from the slot of the client's
  hash on, so while that slot is healthy the same client always gets the same backend, whatever
  the load and whatever was selected before.
\<close>

theorem ip_hash_sticky:
  assumes "lb_strategy lb = IpHash" and "lb_backends lb \<noteq> []"
  shows "map_option snd (fst (select clk ip lb)) = Some i \<longleftrightarrow>
    (\<exists>k < length (lb_backends lb).
       i = (unat (hash_of ip) + k) mod length (lb_backends lb) \<and> healthy_at (clk k) (lb_backends lb ! i) \<and>
       (\<forall>m < k. \<not> healthy_at (clk m)
          (lb_backends lb ! ((unat (hash_of ip) + m) mod length (lb_backends lb)))))"
proof -
  let ?n = "length (lb_backends lb)"
  have "map_option snd (fst (select clk ip lb)) = fst (pick clk ip lb)"
    using assms(2) by (auto simp: select_pick split: option.splits)
  also have "\<dots> = fst (hp.walk clk 0 (ih_slots (unat (hash_of ip)) ?n 0 ?n) (lb_backends lb))"
    using assms(1) by (simp add: pick_defs ih_loop_walk)
  finally have sel: "map_option snd (fst (select clk ip lb)) =
      fst (hp.walk clk 0 (ih_slots (unat (hash_of ip)) ?n 0 ?n) (lb_backends lb))" .
  have slot: "ih_slots (unat (hash_of ip)) ?n 0 ?n ! m = (unat (hash_of ip) + m) mod ?n"
    if "m < ?n" for m using that by simp
  show ?thesis unfolding sel hp.walk_Some_iff by (auto simp: slot)
qed

theorem ip_hash_sticky_witness:
  "map_option snd (fst (select (\<lambda>_. 0) (Some (V4 7))
      \<lparr>lb_backends = [backend_new ''a'', backend_new ''b'', backend_new ''c''],
       lb_strategy = IpHash, lb_cursor = 0\<rparr>)) = Some 1"
proof -
  have "healthy_at 0 (backend_new u)" for u by (simp add: healthy_at_def backend_new_def)
  then show ?thesis
    by (subst ip_hash_sticky) (auto simp: hash_of_def intro!: exI [of _ 0])
qed

text \<open>
  The hash of a version 4 address is its number; of a version 6 address it is its low 32
  bits, so clients that share those share a backend.
\<close>

theorem hash_of_is_low_32_bits:
  "hash_of (Some (V4 a)) = ucast a \<and> hash_of (Some (V6 b)) = ucast (ucast b :: u32) \<and> hash_of None = 0"
proof -
  have "from_be_bytes (octet b 12) (octet b 13) (octet b 14) (octet b 15) = (ucast b :: u32)"
  proof (rule bit_word_eqI)
    fix n
    assume "n < LENGTH(32)"
    then consider "n < 8" | "8 \<le> n" "n < 16" | "16 \<le> n" "n < 24" | "24 \<le> n" "n < 32"
      by fastforce
    then show "bit (from_be_bytes (octet b 12) (octet b 13) (octet b 14) (octet b 15)) n =
        bit (ucast b :: u32) n"
      by cases (auto simp: from_be_bytes_def octet_def bit_simps)
  qed
  then show ?thesis by (simp add: hash_of_def)
qed

section \<open>Guards\<close>

definition lb_active :: "load_balancer \<Rightarrow> nat \<Rightarrow> nat" where
  "lb_active lb i = (if i < length (lb_backends lb) then unat (b_active (lb_backends lb ! i)) else 0)"

definition lb_limit :: "load_balancer \<Rightarrow> nat \<Rightarrow> nat" where
  "lb_limit lb i = (if i < length (lb_backends lb) then 2 ^ 64 - 1 else 0)"

definition take_guard :: "nat \<Rightarrow> load_balancer \<Rightarrow> load_balancer" where
  "take_guard i lb = update_backend i acquire lb"

interpretation guards: guarded_count lb_active lb_limit take_guard drop_guard
proof
  fix lb i
  assume "lb_active lb i < lb_limit lb i"
  then have i: "i < length (lb_backends lb)" and a: "unat (b_active (lb_backends lb ! i)) < 2 ^ 64 - 1"
    by (auto simp: lb_active_def lb_limit_def split: if_splits)
  have "unat (b_active (lb_backends lb ! i) + 1) = Suc (unat (b_active (lb_backends lb ! i)))"
    using a by (simp add: unat_word_ariths)
  then show "lb_active (take_guard i lb) i = Suc (lb_active lb i)"
    using i by (simp add: lb_active_def take_guard_def update_backend_def acquire_def)
next
  fix lb i
  assume "0 < lb_active lb i"
  then have "i < length (lb_backends lb)" "0 < b_active (lb_backends lb ! i)"
    by (auto simp: lb_active_def word_less_nat_alt split: if_splits)
  then show "Suc (lb_active (drop_guard i lb) i) = lb_active lb i"
    by (simp add: lb_active_def drop_guard_def update_backend_def release_def unat_pred)
qed (auto simp: lb_active_def take_guard_def drop_guard_def update_backend_def)

lemma lb_active_cong:
  assumes "map b_active (lb_backends lb') = map b_active (lb_backends lb)"
  shows "lb_active lb' = lb_active lb"
proof
  fix i
  have "length (lb_backends lb') = length (lb_backends lb)" using assms by (metis length_map)
  then show "lb_active lb' i = lb_active lb i"
    using assms by (auto simp: lb_active_def) (metis nth_map)
qed

lemma tracks_cong:
  "map b_active (lb_backends lb') = map b_active (lb_backends lb) \<Longrightarrow>
   guards.tracks lb' G = guards.tracks lb G"
  unfolding guards.tracks_def by (drule lb_active_cong) simp

lemma on_url_frame:
  "(\<And>b. g (f b) = g b) \<Longrightarrow> map g (on_url url f bs) = map g bs"
  by (induction bs) auto

lemma feedback_frame:
  "map b_active (lb_backends (success url lb)) = map b_active (lb_backends lb)"
  "map b_active (lb_backends (failure now url lb)) = map b_active (lb_backends lb)"
  "map b_url (lb_backends (success url lb)) = map b_url (lb_backends lb)"
  "map b_url (lb_backends (failure now url lb)) = map b_url (lb_backends lb)"
  by (simp_all add: success_def failure_def on_url_frame step_simps)

lemmas tracks_feedback [step_simps] =
  feedback_frame(1) [THEN tracks_cong] feedback_frame(2) [THEN tracks_cong]

text \<open>
  Any interleaving of requests and health checks: a request selects and takes a guard, a guard
  is dropped when its request ends, and outcomes are reported, in any order.
\<close>

datatype lb_event =
    Select "nat \<Rightarrow> u64" "ip_addr option"
  | DropGuard nat
  | ReportSuccess string
  | ReportFailure u64 string

fun lb_step :: "load_balancer \<times> nat multiset \<Rightarrow> lb_event \<Rightarrow> load_balancer \<times> nat multiset" where
  "lb_step (lb, G) (Select clk ip) =
     (case select clk ip lb of
        (None, lb') \<Rightarrow> (lb', G)
      | (Some (url, i), lb') \<Rightarrow> (lb', add_mset i G))"
| "lb_step (lb, G) (DropGuard i) = (if i \<in># G then (drop_guard i lb, G - {#i#}) else (lb, G))"
| "lb_step (lb, G) (ReportSuccess url) = (success url lb, G)"
| "lb_step (lb, G) (ReportFailure now url) = (failure now url lb, G)"

definition lb_run :: "load_balancer \<times> nat multiset \<Rightarrow> lb_event list \<Rightarrow> load_balancer \<times> nat multiset" where
  "lb_run s es = foldl lb_step s es"

lemma lb_run_simps [simp]: "lb_run s [] = s" "lb_run s (e # es) = lb_run (lb_step s e) es"
  by (simp_all add: lb_run_def)

lemma select_tracks:
  assumes "guards.tracks lb G" and "size G < 2 ^ 64 - 1" and "select clk ip lb = (r, lb')"
  shows "guards.tracks lb' (case r of None \<Rightarrow> G | Some (_, i) \<Rightarrow> add_mset i G)"
proof -
  let ?p = "snd (pick clk ip lb)"
  have p: "map b_active (lb_backends ?p) = map b_active (lb_backends lb)"
    by (rule pick_frame) (simp add: is_healthy_frame)
  then have tr: "guards.tracks ?p G" using assms(1) tracks_cong [OF p] by simp
  show ?thesis
  proof (cases r)
    case None
    with assms(3) tr assms(1) show ?thesis
      by (auto simp: select_pick split: if_splits option.splits)
  next
    case (Some x)
    then obtain url i where x: "r = Some (url, i)" by (cases x) auto
    with assms(3) have i: "fst (pick clk ip lb) = Some i" and ne: "lb_backends lb \<noteq> []"
      and lb': "lb' = take_guard i ?p"
      by (auto simp: select_pick take_guard_def split: if_splits option.splits)
    obtain k where "i < length (lb_backends lb)" by (rule pick_Some [OF i ne])
    then have "i < length (lb_backends ?p)" by (simp add: frame_simps)
    moreover have "lb_active ?p i \<le> size G"
      using tr by (simp add: guards.tracks_def count_le_size)
    ultimately have "lb_active ?p i < lb_limit ?p i" using assms(2) by (simp add: lb_limit_def)
    with tr show ?thesis by (simp add: x lb' guards.tracks_acq)
  qed
qed

lemma lb_step_tracks:
  assumes "guards.tracks (fst s) (snd s + H)" and "size (snd s + H) < 2 ^ 64 - 1"
  shows "guards.tracks (fst (lb_step s e)) (snd (lb_step s e) + H) \<and>
    size (snd (lb_step s e)) \<le> Suc (size (snd s))"
proof (cases s)
  case (Pair lb G)
  show ?thesis
  proof (cases e)
    case (Select clk ip)
    obtain r lb' where "select clk ip lb = (r, lb')" by (cases "select clk ip lb")
    then show ?thesis
      using select_tracks [of lb "G + H" clk ip r lb'] assms Pair Select
      by (auto split: option.splits)
  next
    case (DropGuard i)
    show ?thesis
    proof (cases "i \<in># G")
      case True
      then have "G - {#i#} + H = G + H - {#i#}" by simp
      then show ?thesis
        using guards.tracks_rel [of lb "G + H" i] assms Pair DropGuard True
        by (simp add: size_Diff_singleton)
    qed (use assms Pair DropGuard in simp)
  qed (use assms Pair in \<open>auto simp: step_simps\<close>)
qed

text \<open>The guards \<open>H\<close> are held by someone else all along; the events only drop their own.\<close>

lemma lb_run_tracks:
  assumes "guards.tracks (fst s) (snd s + H)" and "size (snd s + H) + length es < 2 ^ 64"
  shows "guards.tracks (fst (lb_run s es)) (snd (lb_run s es) + H)"
  using assms
proof (induction es arbitrary: s)
  case (Cons e es)
  have "guards.tracks (fst (lb_step s e)) (snd (lb_step s e) + H)"
    "size (snd (lb_step s e)) \<le> Suc (size (snd s))"
    using lb_step_tracks [of s H e] Cons.prems by simp_all
  then show ?case using Cons.IH [of "lb_step s e"] Cons.prems(2) by simp
qed simp

text \<open>
  No request leaks and none is counted twice: after any interleaving of selections, ends of
  requests and reported outcomes, the active count of every backend is the number of guards on
  it that are still out.
\<close>

theorem active_counts_are_live_guards:
  assumes "length es < 2 ^ 64"
    and "i < length (lb_backends (fst (lb_run (load_balancer_new cfg, {#}) es)))"
  shows "unat (b_active (lb_backends (fst (lb_run (load_balancer_new cfg, {#}) es)) ! i))
    = count (snd (lb_run (load_balancer_new cfg, {#}) es)) i"
proof -
  have "guards.tracks (load_balancer_new cfg) {#}"
    by (simp add: guards.tracks_def lb_active_def load_balancer_new_def backend_new_def)
  then have "guards.tracks (fst (lb_run (load_balancer_new cfg, {#}) es))
      (snd (lb_run (load_balancer_new cfg, {#}) es))"
    using lb_run_tracks [of "(load_balancer_new cfg, {#})" "{#}" es] assms(1) by simp
  then show ?thesis using assms(2) by (auto simp: guards.tracks_def lb_active_def dest: spec [of _ i])
qed

definition two_of_three :: "load_balancer \<times> nat multiset" where
  "two_of_three =
     lb_run
       (load_balancer_new \<lparr>dc_backends = [''u''], dc_load_balance = IpHash, dc_tls = None,
          dc_static_files = None, dc_redirect_to_https = False,
          dc_health_check = health_check_default, dc_headers = []\<rparr>, {#})
       [Select (\<lambda>_. 0) None, Select (\<lambda>_. 0) None, DropGuard 0]"

theorem active_counts_are_live_guards_witness:
  "unat (b_active (lb_backends (fst two_of_three) ! 0)) = 1"
proof -
  have "length (lb_backends (fst two_of_three)) = 1 \<and> snd two_of_three = {#0#}"
    by (simp add: two_of_three_def load_balancer_new_def backend_new_def select_pick pick_defs
        ih_loop_Suc hash_of_def healthy_at_def is_healthy_def update_backend_def acquire_def
        drop_guard_def)
  then show ?thesis
    unfolding two_of_three_def by (subst active_counts_are_live_guards) simp_all
qed

section \<open>What never changes\<close>

text \<open>The URLs of the backends and the strategy.\<close>

definition lb_urls :: "load_balancer \<Rightarrow> string list" where
  "lb_urls lb = map b_url (lb_backends lb)"

definition lb_shape :: "load_balancer \<Rightarrow> string list \<times> load_balance" where
  "lb_shape lb = (lb_urls lb, lb_strategy lb)"

lemma lb_urls_length: "length (lb_urls lb) = length (lb_backends lb)"
  by (simp add: lb_urls_def)

lemma shape_length: "lb_shape lb' = lb_shape lb \<Longrightarrow> length (lb_backends lb') = length (lb_backends lb)"
  by (metis lb_shape_def lb_urls_length prod.inject)

lemma shape_update: "(\<And>b. b_url (f b) = b_url b) \<Longrightarrow> lb_shape (update_backend i f lb) = lb_shape lb"
  by (simp add: lb_shape_def lb_urls_def update_backend_def map_update_id)

lemma shape_pick: "lb_shape (snd (pick clk ip lb)) = lb_shape lb"
  by (simp add: lb_shape_def lb_urls_def pick_strategy pick_frame [of b_url] is_healthy_frame)

lemma shape_simps [frame_simps]:
  "lb_shape (drop_guard i lb) = lb_shape lb" "lb_shape (success url lb) = lb_shape lb"
  "lb_shape (failure now url lb) = lb_shape lb" "lb_shape (snd (select clk ip lb)) = lb_shape lb"
proof -
  show "lb_shape (drop_guard i lb) = lb_shape lb"
    by (simp add: drop_guard_def shape_update release_def)
  show "lb_shape (success url lb) = lb_shape lb" "lb_shape (failure now url lb) = lb_shape lb"
    using feedback_frame(3) [of url lb] feedback_frame(4) [of now url lb]
    by (simp_all add: lb_shape_def lb_urls_def) (simp_all add: success_def failure_def)
  show "lb_shape (snd (select clk ip lb)) = lb_shape lb"
    using shape_pick [of clk ip lb]
    by (simp add: select_pick shape_update acquire_def split: option.split)
qed

section \<open>Feedback\<close>

lemma length_on_url [simp]: "length (on_url url f bs) = length bs"
  by (induction bs) auto

lemma nth_on_url:
  "i < length bs \<Longrightarrow>
   on_url url f bs ! i =
     (if b_url (bs ! i) = url \<and> (\<forall>j < i. b_url (bs ! j) \<noteq> url) then f (bs ! i) else bs ! i)"
proof (induction bs arbitrary: i)
  case (Cons b bs)
  then show ?case by (cases i) (auto simp: less_Suc_eq_0_disj)
qed simp

text \<open>
  An outcome reported for a URL reaches the first backend with that URL and no other; a
  second backend configured with the same URL never hears of success or failure.
\<close>

theorem feedback_reaches_first_match:
  assumes "i < length (lb_backends lb)"
  shows "lb_backends (failure now url lb) ! i =
      (if b_url (lb_backends lb ! i) = url \<and> (\<forall>j < i. b_url (lb_backends lb ! j) \<noteq> url)
       then record_failure now (lb_backends lb ! i) else lb_backends lb ! i) \<and>
    lb_backends (success url lb) ! i =
      (if b_url (lb_backends lb ! i) = url \<and> (\<forall>j < i. b_url (lb_backends lb ! j) \<noteq> url)
       then record_success (lb_backends lb ! i) else lb_backends lb ! i)"
  using assms by (simp add: failure_def success_def nth_on_url)

theorem feedback_reaches_first_match_witness:
  "lb_backends (failure 9 ''u''
      \<lparr>lb_backends = [backend_new ''u'', backend_new ''u''], lb_strategy = RoundRobin, lb_cursor = 0\<rparr>) ! 1
    = backend_new ''u''"
proof -
  let ?lb = "\<lparr>lb_backends = [backend_new ''u'', backend_new ''u''], lb_strategy = RoundRobin, lb_cursor = 0\<rparr>"
  have second: "\<not> (b_url (lb_backends ?lb ! 1) = ''u'' \<and>
      (\<forall>j < 1. b_url (lb_backends ?lb ! j) \<noteq> ''u''))" by (auto simp: backend_new_def)
  have "1 < length (lb_backends ?lb)" by simp
  from feedback_reaches_first_match [OF this, of 9 "''u''"] show ?thesis
    unfolding if_not_P [OF second] by simp
qed

end
