(* ===== verification/Atomics.thy ===== *)
theory Atomics
  imports BalancerProps
begin

text \<open>
  The load balancer at the grain of its atomics. The counters and flags of a \<^verbatim>\<open>Backend\<close> and the
  cursor of \<^verbatim>\<open>src/src/load_balancer.rs\<close> are separate atomics that requests and health checks of
  several threads use without a lock: between any two accesses of one operation the accesses of
  others may come. Here an operation is the tree of its accesses, in the order of the code, each
  continued by what the access returned. Run alone, it is the operation of \<^verbatim>\<open>LoadBalancer\<close>; run in
  a pool of jobs it is interleaved with others access by access. The accesses are \<^verbatim>\<open>Relaxed\<close>; the
  model orders all of them in one sequence.
\<close>

section \<open>Accesses\<close>

datatype 'r prog =
    Ret 'r
  | LoadOpen nat "bool \<Rightarrow> 'r prog"
  | StoreOpen nat bool "'r prog"
  | FetchAddFailures nat "usize \<Rightarrow> 'r prog"
  | StoreFailures nat usize "'r prog"
  | LoadLast nat "u64 \<Rightarrow> 'r prog"
  | StoreLast nat u64 "'r prog"
  | FetchAddActive nat "'r prog"
  | FetchSubActive nat "'r prog"
  | LoadActive nat "usize \<Rightarrow> 'r prog"
  | FetchAddCursor "usize \<Rightarrow> 'r prog"
  | UnixNow "u64 \<Rightarrow> 'r prog"

primrec bind :: "'a prog \<Rightarrow> ('a \<Rightarrow> 'b prog) \<Rightarrow> 'b prog" where
  "bind (Ret r) f = f r"
| "bind (LoadOpen i k) f = LoadOpen i (\<lambda>x. bind (k x) f)"
| "bind (StoreOpen i v p) f = StoreOpen i v (bind p f)"
| "bind (FetchAddFailures i k) f = FetchAddFailures i (\<lambda>x. bind (k x) f)"
| "bind (StoreFailures i v p) f = StoreFailures i v (bind p f)"
| "bind (LoadLast i k) f = LoadLast i (\<lambda>x. bind (k x) f)"
| "bind (StoreLast i v p) f = StoreLast i v (bind p f)"
| "bind (FetchAddActive i p) f = FetchAddActive i (bind p f)"
| "bind (FetchSubActive i p) f = FetchSubActive i (bind p f)"
| "bind (LoadActive i k) f = LoadActive i (\<lambda>x. bind (k x) f)"
| "bind (FetchAddCursor k) f = FetchAddCursor (\<lambda>x. bind (k x) f)"
| "bind (UnixNow k) f = UnixNow (\<lambda>x. bind (k x) f)"

text \<open>One access on the shared balancer; the clock stands at \<open>t\<close>.\<close>

fun access :: "u64 \<Rightarrow> 'r prog \<Rightarrow> load_balancer \<Rightarrow> 'r prog \<times> load_balancer" where
  "access t (Ret r) lb = (Ret r, lb)"
| "access t (LoadOpen i k) lb = (k (b_circuit_open (lb_backends lb ! i)), lb)"
| "access t (StoreOpen i v p) lb = (p, update_backend i (\<lambda>b. b\<lparr>b_circuit_open := v\<rparr>) lb)"
| "access t (FetchAddFailures i k) lb =
     (k (b_failures (lb_backends lb ! i)), update_backend i (\<lambda>b. b\<lparr>b_failures := b_failures b + 1\<rparr>) lb)"
| "access t (StoreFailures i v p) lb = (p, update_backend i (\<lambda>b. b\<lparr>b_failures := v\<rparr>) lb)"
| "access t (LoadLast i k) lb = (k (b_last_failure (lb_backends lb ! i)), lb)"
| "access t (StoreLast i v p) lb = (p, update_backend i (\<lambda>b. b\<lparr>b_last_failure := v\<rparr>) lb)"
| "access t (FetchAddActive i p) lb = (p, update_backend i acquire lb)"
| "access t (FetchSubActive i p) lb = (p, update_backend i release lb)"
| "access t (LoadActive i k) lb = (k (active_count (lb_backends lb ! i)), lb)"
| "access t (FetchAddCursor k) lb = (k (lb_cursor lb), lb\<lparr>lb_cursor := lb_cursor lb + 1\<rparr>)"
| "access t (UnixNow k) lb = (k t, lb)"

section \<open>The operations\<close>

definition record_success_prog :: "nat \<Rightarrow> unit prog" where
  "record_success_prog i = StoreFailures i 0 (StoreOpen i False (Ret ()))"

definition record_failure_prog :: "nat \<Rightarrow> unit prog" where
  "record_failure_prog i =
     FetchAddFailures i (\<lambda>old. let f = old + 1 in
     UnixNow (\<lambda>now.
     StoreLast i now
       (if CB_THRESHOLD \<le> f then StoreOpen i True (Ret ()) else Ret ())))"

definition is_healthy_prog :: "nat \<Rightarrow> bool prog" where
  "is_healthy_prog i =
     LoadOpen i (\<lambda>circuit_open.
       if \<not> circuit_open then Ret True
       else UnixNow (\<lambda>now. LoadLast i (\<lambda>last_failure.
         if CB_RESET_SECS \<le> now - last_failure
         then StoreOpen i False (StoreFailures i 0 (Ret True))
         else Ret False)))"

text \<open>\<open>n\<close> backends, \<open>k\<close> rounds left.\<close>

fun round_robin_prog :: "nat \<Rightarrow> nat \<Rightarrow> nat option prog" where
  "round_robin_prog n 0 = Ret None"
| "round_robin_prog n (Suc k) =
     FetchAddCursor (\<lambda>cursor. let idx = unat cursor mod n in
       bind (is_healthy_prog idx)
         (\<lambda>ok. if ok then Ret (Some idx) else round_robin_prog n k))"

text \<open>The backends \<open>i\<close>, \<open>i + 1\<close>, \<open>...\<close> are tested and, when healthy, their counts read, one after another.\<close>

fun least_connections_prog :: "nat \<Rightarrow> nat \<Rightarrow> (nat \<times> usize) option \<Rightarrow> nat option prog" where
  "least_connections_prog 0 i best = Ret (map_option fst best)"
| "least_connections_prog (Suc k) i best =
     bind (is_healthy_prog i)
       (\<lambda>ok. if ok then
               LoadActive i (\<lambda>c. least_connections_prog k (Suc i)
                 (case best of
                    None \<Rightarrow> Some (i, c)
                  | Some (j, a) \<Rightarrow> if c < a then Some (i, c) else Some (j, a)))
             else least_connections_prog k (Suc i) best)"

fun ip_hash_prog :: "nat \<Rightarrow> nat \<Rightarrow> nat \<Rightarrow> nat \<Rightarrow> nat option prog" where
  "ip_hash_prog h n 0 i = Ret None"
| "ip_hash_prog h n (Suc k) i =
     (let idx = (h + i) mod n in
      bind (is_healthy_prog idx)
        (\<lambda>ok. if ok then Ret (Some idx) else ip_hash_prog h n k (Suc i)))"

definition pick_prog :: "load_balance \<Rightarrow> nat \<Rightarrow> ip_addr option \<Rightarrow> nat option prog" where
  "pick_prog strategy n ip =
     (case strategy of
        RoundRobin \<Rightarrow> round_robin_prog n n
      | LeastConnections \<Rightarrow> least_connections_prog n 0 None
      | IpHash \<Rightarrow> ip_hash_prog (unat (hash_of ip)) n n 0)"

text \<open>The index is that of the guard; the URL is not an atomic and never changes.\<close>

definition select_prog :: "load_balance \<Rightarrow> nat \<Rightarrow> ip_addr option \<Rightarrow> nat option prog" where
  "select_prog strategy n ip =
     (if n = 0 then Ret None
      else bind (pick_prog strategy n ip)
        (\<lambda>r. case r of None \<Rightarrow> Ret None | Some i \<Rightarrow> FetchAddActive i (Ret (Some i))))"

definition drop_guard_prog :: "nat \<Rightarrow> unit prog" where
  "drop_guard_prog i = FetchSubActive i (Ret ())"

fun find_url :: "string \<Rightarrow> string list \<Rightarrow> nat option" where
  "find_url url [] = None"
| "find_url url (u # us) = (if u = url then Some 0 else map_option Suc (find_url url us))"

definition success_prog :: "string list \<Rightarrow> string \<Rightarrow> unit prog" where
  "success_prog urls url =
     (case find_url url urls of None \<Rightarrow> Ret () | Some i \<Rightarrow> record_success_prog i)"

definition failure_prog :: "string list \<Rightarrow> string \<Rightarrow> unit prog" where
  "failure_prog urls url =
     (case find_url url urls of None \<Rightarrow> Ret () | Some i \<Rightarrow> record_failure_prog i)"

section \<open>An operation on its own\<close>

text \<open>
  The result of running an operation with nothing in between, the number of clock readings so far,
  and the balancer; the \<open>s\<close>-th reading of the clock is \<open>clk s\<close>.
\<close>

primrec alone :: "(nat \<Rightarrow> u64) \<Rightarrow> 'r prog \<Rightarrow> nat \<Rightarrow> load_balancer \<Rightarrow> 'r \<times> nat \<times> load_balancer" where
  "alone clk (Ret r) = (\<lambda>s lb. (r, s, lb))"
| "alone clk (LoadOpen i k) = (\<lambda>s lb. alone clk (k (b_circuit_open (lb_backends lb ! i))) s lb)"
| "alone clk (StoreOpen i v p) =
     (\<lambda>s lb. alone clk p s (update_backend i (\<lambda>b. b\<lparr>b_circuit_open := v\<rparr>) lb))"
| "alone clk (FetchAddFailures i k) =
     (\<lambda>s lb. alone clk (k (b_failures (lb_backends lb ! i))) s
               (update_backend i (\<lambda>b. b\<lparr>b_failures := b_failures b + 1\<rparr>) lb))"
| "alone clk (StoreFailures i v p) =
     (\<lambda>s lb. alone clk p s (update_backend i (\<lambda>b. b\<lparr>b_failures := v\<rparr>) lb))"
| "alone clk (LoadLast i k) = (\<lambda>s lb. alone clk (k (b_last_failure (lb_backends lb ! i))) s lb)"
| "alone clk (StoreLast i v p) =
     (\<lambda>s lb. alone clk p s (update_backend i (\<lambda>b. b\<lparr>b_last_failure := v\<rparr>) lb))"
| "alone clk (FetchAddActive i p) = (\<lambda>s lb. alone clk p s (update_backend i acquire lb))"
| "alone clk (FetchSubActive i p) = (\<lambda>s lb. alone clk p s (update_backend i release lb))"
| "alone clk (LoadActive i k) = (\<lambda>s lb. alone clk (k (active_count (lb_backends lb ! i))) s lb)"
| "alone clk (FetchAddCursor k) =
     (\<lambda>s lb. alone clk (k (lb_cursor lb)) s (lb\<lparr>lb_cursor := lb_cursor lb + 1\<rparr>))"
| "alone clk (UnixNow k) = (\<lambda>s lb. alone clk (k (clk s)) (Suc s) lb)"

text \<open>It is the iteration of single accesses.\<close>

lemma alone_access:
  "\<exists>s'. alone clk p s lb = alone clk (fst (access (clk s) p lb)) s' (snd (access (clk s) p lb))"
  by (cases p) auto

lemma alone_bind:
  "alone clk (bind p f) s lb =
     (let (r, s', lb') = alone clk p s lb in alone clk (f r) s' lb')"
  by (induction p arbitrary: s lb) simp_all

lemma update_backend_twice [simp]:
  "update_backend i g (update_backend i f lb) = update_backend i (\<lambda>b. g (f b)) lb"
  by (cases "i < length (lb_backends lb)") (simp_all add: update_backend_def list_update_beyond)

lemma update_backend_cong:
  "f (lb_backends lb ! i) = g (lb_backends lb ! i) \<Longrightarrow> update_backend i f lb = update_backend i g lb"
  by (simp add: update_backend_def)

lemma alone_record_success:
  "alone clk (record_success_prog i) s lb = ((), s, update_backend i record_success lb)"
  by (simp add: record_success_prog_def record_success_def [abs_def])

lemma update_backend_same: "f (lb_backends lb ! i) = lb_backends lb ! i \<Longrightarrow> update_backend i f lb = lb"
  by (simp add: update_backend_def)

lemma update_backend_nth [simp]:
  "i < length (lb_backends lb) \<Longrightarrow> lb_backends (update_backend i f lb) ! i = f (lb_backends lb ! i)"
  by (simp add: update_backend_def)

lemma update_backend_frame [simp]:
  "length (lb_backends (update_backend i f lb)) = length (lb_backends lb)"
  "lb_cursor (update_backend i f lb) = lb_cursor lb" "lb_strategy (update_backend i f lb) = lb_strategy lb"
  "j \<noteq> i \<Longrightarrow> lb_backends (update_backend i f lb) ! j = lb_backends lb ! j"
  by (simp_all add: update_backend_def)

lemma alone_record_failure:
  "alone clk (record_failure_prog i) s lb =
     ((), Suc s, update_backend i (record_failure (clk s)) lb)"
  by (auto simp: record_failure_prog_def record_failure_def Let_def intro!: update_backend_cong)

text \<open>A probe reads the clock only when the circuit is open; then it is the probe at that time.\<close>

definition probe_reads :: "nat \<Rightarrow> nat \<Rightarrow> load_balancer \<Rightarrow> nat" where
  "probe_reads i s lb = (if b_circuit_open (lb_backends lb ! i) then Suc s else s)"

lemma alone_is_healthy:
  "alone clk (is_healthy_prog i) s lb =
     (fst (is_healthy (clk s) (lb_backends lb ! i)), probe_reads i s lb,
      update_backend i (\<lambda>b. snd (is_healthy (clk s) b)) lb)"
  by (auto simp: is_healthy_prog_def is_healthy_def probe_reads_def Let_def
      intro!: update_backend_cong update_backend_same [symmetric])

text \<open>The atomic operations depend only on the readings they can still take.\<close>

lemma rr_loop_cong: "(\<And>j. i \<le> j \<Longrightarrow> clk j = clk' j) \<Longrightarrow> rr_loop clk k i lb = rr_loop clk' k i lb"
  by (induction k arbitrary: i lb) (simp_all add: rr_loop_Suc Let_def)

lemma ih_loop_cong: "(\<And>j. i \<le> j \<Longrightarrow> clk j = clk' j) \<Longrightarrow> ih_loop clk h k i lb = ih_loop clk' h k i lb"
  by (induction k arbitrary: i lb) (simp_all add: ih_loop_Suc Let_def)

lemma lc_loop_cong:
  "(\<And>j. i \<le> j \<Longrightarrow> clk j = clk' j) \<Longrightarrow> lc_loop clk i bs best = lc_loop clk' i bs best"
  by (induction bs arbitrary: i best) (simp_all add: lc_loop_Cons)


lemma alone_round_robin:
  "\<exists>clk' s'. range clk' \<subseteq> range clk \<and>
     alone clk (round_robin_prog (length (lb_backends lb)) k) s lb =
       (fst (rr_loop clk' k i lb), s', snd (rr_loop clk' k i lb))"
proof (induction k arbitrary: s i lb)
  case (Suc k)
  let ?n = "length (lb_backends lb)" and ?idx = "unat (lb_cursor lb) mod length (lb_backends lb)"
  let ?b = "lb_backends lb ! ?idx"
  let ?lb = "update_backend ?idx (\<lambda>b. snd (is_healthy (clk s) b)) (lb\<lparr>lb_cursor := lb_cursor lb + 1\<rparr>)"
  obtain clk' s' where IH: "range clk' \<subseteq> range clk"
    "alone clk (round_robin_prog ?n k) (probe_reads ?idx s lb) ?lb =
       (fst (rr_loop clk' k (Suc i) ?lb), s', snd (rr_loop clk' k (Suc i) ?lb))"
    using Suc.IH [of ?lb "probe_reads ?idx s lb" "Suc i"] by auto
  have cong: "rr_loop (clk'(i := clk s)) k (Suc i) ?lb = rr_loop clk' k (Suc i) ?lb"
    by (rule rr_loop_cong) simp
  have loop: "rr_loop (clk'(i := clk s)) (Suc k) i lb =
      (if healthy_at (clk s) ?b then (Some ?idx, ?lb) else rr_loop clk' k (Suc i) ?lb)"
    unfolding rr_loop_Suc Let_def
    using cong by (simp add: update_backend_def)
  have "alone clk (round_robin_prog ?n (Suc k)) s lb =
      (if healthy_at (clk s) ?b then (Some ?idx, probe_reads ?idx s lb, ?lb)
       else alone clk (round_robin_prog ?n k) (probe_reads ?idx s lb) ?lb)"
    by (simp add: alone_bind alone_is_healthy Let_def hp.probe_result probe_reads_def)
  with IH loop have "alone clk (round_robin_prog ?n (Suc k)) s lb =
      (fst (rr_loop (clk'(i := clk s)) (Suc k) i lb), if healthy_at (clk s) ?b then probe_reads ?idx s lb else s',
       snd (rr_loop (clk'(i := clk s)) (Suc k) i lb))"
    by (cases "healthy_at (clk s) ?b") simp_all
  moreover have "range (clk'(i := clk s)) \<subseteq> range clk" using IH(1) by auto
  ultimately show ?case by blast
qed auto

lemma alone_ip_hash:
  "\<exists>clk' s'. range clk' \<subseteq> range clk \<and>
     alone clk (ip_hash_prog h (length (lb_backends lb)) k i) s lb =
       (fst (ih_loop clk' h k i lb), s', snd (ih_loop clk' h k i lb))"
proof (induction k arbitrary: s i lb)
  case (Suc k)
  let ?n = "length (lb_backends lb)" and ?idx = "(h + i) mod length (lb_backends lb)"
  let ?b = "lb_backends lb ! ?idx"
  let ?lb = "update_backend ?idx (\<lambda>b. snd (is_healthy (clk s) b)) lb"
  obtain clk' s' where IH: "range clk' \<subseteq> range clk"
    "alone clk (ip_hash_prog h ?n k (Suc i)) (probe_reads ?idx s lb) ?lb =
       (fst (ih_loop clk' h k (Suc i) ?lb), s', snd (ih_loop clk' h k (Suc i) ?lb))"
    using Suc.IH [of ?lb "Suc i" "probe_reads ?idx s lb"] by auto
  have cong: "ih_loop (clk'(i := clk s)) h k (Suc i) ?lb = ih_loop clk' h k (Suc i) ?lb"
    by (rule ih_loop_cong) simp
  have loop: "ih_loop (clk'(i := clk s)) h (Suc k) i lb =
      (if healthy_at (clk s) ?b then (Some ?idx, ?lb) else ih_loop clk' h k (Suc i) ?lb)"
    unfolding ih_loop_Suc Let_def
    using cong by (simp add: update_backend_def)
  have "alone clk (ip_hash_prog h ?n (Suc k) i) s lb =
      (if healthy_at (clk s) ?b then (Some ?idx, probe_reads ?idx s lb, ?lb)
       else alone clk (ip_hash_prog h ?n k (Suc i)) (probe_reads ?idx s lb) ?lb)"
    by (simp add: alone_bind alone_is_healthy Let_def hp.probe_result probe_reads_def)
  with IH loop have "alone clk (ip_hash_prog h ?n (Suc k) i) s lb =
      (fst (ih_loop (clk'(i := clk s)) h (Suc k) i lb), if healthy_at (clk s) ?b then probe_reads ?idx s lb else s',
       snd (ih_loop (clk'(i := clk s)) h (Suc k) i lb))"
    by (cases "healthy_at (clk s) ?b") simp_all
  moreover have "range (clk'(i := clk s)) \<subseteq> range clk" using IH(1) by auto
  ultimately show ?case by blast
qed auto


lemma alone_least_connections:
  assumes "i + k = length (lb_backends lb)"
  shows "\<exists>clk' s'. range clk' \<subseteq> range clk \<and>
     alone clk (least_connections_prog k i best) s lb =
       (let (r, bs) = lc_loop clk' i (drop i (lb_backends lb)) best
        in (map_option fst r, s', lb\<lparr>lb_backends := take i (lb_backends lb) @ bs\<rparr>))"
  using assms
proof (induction k arbitrary: s i lb best)
  case (Suc k)
  let ?bs = "lb_backends lb"
  let ?b = "?bs ! i" and ?best = "lc_best i (clk s) (?bs ! i) best"
  let ?lb = "update_backend i (\<lambda>b. snd (is_healthy (clk s) b)) lb"
  have i: "i < length ?bs" using Suc.prems by simp
  obtain clk' s' where IH: "range clk' \<subseteq> range clk"
    "alone clk (least_connections_prog k (Suc i) ?best) (probe_reads i s lb) ?lb =
       (let (r, bs) = lc_loop clk' (Suc i) (drop (Suc i) (lb_backends ?lb)) ?best
        in (map_option fst r, s', ?lb\<lparr>lb_backends := take (Suc i) (lb_backends ?lb) @ bs\<rparr>))"
    using Suc.IH [of "Suc i" ?lb ?best "probe_reads i s lb"] Suc.prems by auto
  have cong: "lc_loop (clk'(i := clk s)) (Suc i) xs ?best = lc_loop clk' (Suc i) xs ?best" for xs
    by (rule lc_loop_cong) simp
  have "drop i ?bs = ?b # drop (Suc i) ?bs" using i by (simp add: Cons_nth_drop_Suc)
  then have loop: "lc_loop (clk'(i := clk s)) i (drop i ?bs) best =
      (fst (lc_loop clk' (Suc i) (drop (Suc i) ?bs) ?best),
       snd (is_healthy (clk s) ?b) # snd (lc_loop clk' (Suc i) (drop (Suc i) ?bs) ?best))"
    by (simp add: lc_loop_Cons cong)
  have parts: "drop (Suc i) (lb_backends ?lb) = drop (Suc i) ?bs"
    "take (Suc i) (lb_backends ?lb) = take i ?bs @ [snd (is_healthy (clk s) ?b)]"
    using i by (simp_all add: update_backend_def take_Suc_conv_app_nth)
  have count: "active_count (lb_backends ?lb ! i) = b_active ?b"
    using i by (simp add: active_count_def is_healthy_frame)
  have "alone clk (least_connections_prog (Suc k) i best) s lb =
      alone clk (least_connections_prog k (Suc i) ?best) (probe_reads i s lb) ?lb"
    by (cases "healthy_at (clk s) ?b")
      (simp_all only: least_connections_prog.simps alone_bind alone_is_healthy hp.probe_result Let_def
        prod.case if_True if_False alone.simps count lc_best_def not_True_eq_False)
  also have "\<dots> = (let (r, bs) = lc_loop (clk'(i := clk s)) i (drop i ?bs) best
        in (map_option fst r, s', lb\<lparr>lb_backends := take i ?bs @ bs\<rparr>))"
    unfolding IH(2) loop parts by (simp add: case_prod_beta Let_def update_backend_def)
  finally have run: "alone clk (least_connections_prog (Suc k) i best) s lb = \<dots>" .
  have "range (clk'(i := clk s)) \<subseteq> range clk" using IH(1) by auto
  with run show ?case by blast
qed auto

lemma alone_pick:
  "\<exists>clk' s'. range clk' \<subseteq> range clk \<and>
     alone clk (pick_prog (lb_strategy lb) (length (lb_backends lb)) ip) s lb =
       (fst (pick clk' ip lb), s', snd (pick clk' ip lb))"
proof (cases "lb_strategy lb")
  case RoundRobin
  then show ?thesis
    using alone_round_robin [of clk lb "length (lb_backends lb)" s 0]
    by (simp add: pick_prog_def pick_defs)
next
  case LeastConnections
  then show ?thesis
    using alone_least_connections [of 0 "length (lb_backends lb)" lb clk None s]
    by (simp add: pick_prog_def pick_defs case_prod_beta Let_def)
next
  case IpHash
  then show ?thesis
    using alone_ip_hash [of clk "unat (hash_of ip)" lb "length (lb_backends lb)" 0 s]
    by (simp add: pick_prog_def pick_defs)
qed

lemma find_url_None: "find_url url (map b_url bs) = None \<Longrightarrow> on_url url f bs = bs"
  by (induction bs) (auto split: if_splits)

lemma find_url_Some: "find_url url (map b_url bs) = Some i \<Longrightarrow> i < length bs \<and> on_url url f bs = bs[i := f (bs ! i)]"
  by (induction bs arbitrary: i) (auto split: if_splits)

lemma on_url_update:
  "lb\<lparr>lb_backends := on_url url f (lb_backends lb)\<rparr> =
     (case find_url url (map b_url (lb_backends lb)) of
        None \<Rightarrow> lb | Some i \<Rightarrow> update_backend i f lb)"
  by (auto simp: update_backend_def find_url_None find_url_Some split: option.split)

text \<open>
  C17: Run without interference, the accesses of an operation amount to the operation as
  \<open>LoadBalancer\<close> has it: a selection with clock readings that were taken, the end of a guard, the
  report of a success and of a failure.
\<close>

theorem operations_alone:
  "(\<exists>clk' s'. range clk' \<subseteq> range clk \<and>
      alone clk (select_prog (lb_strategy lb) (length (lb_backends lb)) ip) s lb =
        (map_option snd (fst (select clk' ip lb)), s', snd (select clk' ip lb))) \<and>
   alone clk (drop_guard_prog i) s lb = ((), s, drop_guard i lb) \<and>
   (let urls = map b_url (lb_backends lb) in
      snd (snd (alone clk (success_prog urls url) s lb)) = success url lb \<and>
      snd (snd (alone clk (failure_prog urls url) s lb)) = failure (clk s) url lb)"
proof -
  have sel: "\<exists>clk' s'. range clk' \<subseteq> range clk \<and>
      alone clk (select_prog (lb_strategy lb) (length (lb_backends lb)) ip) s lb =
        (map_option snd (fst (select clk' ip lb)), s', snd (select clk' ip lb))"
  proof -
    obtain clk' s' where p: "range clk' \<subseteq> range clk"
      "alone clk (pick_prog (lb_strategy lb) (length (lb_backends lb)) ip) s lb =
         (fst (pick clk' ip lb), s', snd (pick clk' ip lb))"
      using alone_pick by blast
    have "\<exists>s''. alone clk (select_prog (lb_strategy lb) (length (lb_backends lb)) ip) s lb =
        (map_option snd (fst (select clk' ip lb)), s'', snd (select clk' ip lb))"
      using p(2) by (auto simp: select_prog_def alone_bind select_pick split: option.split)
    with p(1) show ?thesis by blast
  qed
  have "snd (snd (alone clk (success_prog (map b_url (lb_backends lb)) url) s lb)) = success url lb"
    by (simp add: success_prog_def success_def on_url_update alone_record_success split: option.split)
  moreover have "snd (snd (alone clk (failure_prog (map b_url (lb_backends lb)) url) s lb)) = failure (clk s) url lb"
    by (simp add: failure_prog_def failure_def on_url_update alone_record_failure split: option.split)
  moreover have "alone clk (drop_guard_prog i) s lb = ((), s, drop_guard i lb)"
    by (simp add: drop_guard_prog_def drop_guard_def)
  ultimately show ?thesis using sel by (simp add: Let_def)
qed

end
