(* ===== verification/Interleaving.thy ===== *)
theory Interleaving
  imports Atomics
begin

text \<open>
  The operations of \<^verbatim>\<open>src/src/load_balancer.rs\<close> running at the same time: a pool of jobs on one
  balancer, in which any job may do its next access at any moment. A selection hands out a guard
  when it finishes; a guard that is out may be dropped; anybody may report outcomes. Three
  judgements on the tree of an operation, checked once per operation, carry over to every
  interleaving: which guards it owns, how many accesses it takes, and what it knows when it opens a
  circuit.
\<close>

section \<open>The pool\<close>

record pool =
  pl_lb :: load_balancer
  pl_jobs :: "nat option prog list"
  pl_guards :: "nat multiset"

text \<open>Jobs without a result.\<close>

definition void :: "unit prog \<Rightarrow> nat option prog" where
  "void p = bind p (\<lambda>_. Ret None)"

definition guard_of :: "nat option \<Rightarrow> nat multiset" where
  "guard_of r = (case r of None \<Rightarrow> {#} | Some i \<Rightarrow> {#i#})"

datatype pool_event =
    StartSelect "ip_addr option"
  | StartDrop nat
  | StartSuccess string
  | StartFailure string
  | Work nat u64
  | Finish nat

definition start_job :: "nat option prog \<Rightarrow> pool \<Rightarrow> pool" where
  "start_job p pl = pl\<lparr>pl_jobs := pl_jobs pl @ [p]\<rparr>"

text \<open>A finished job hands its guard out and stays as a job that owns nothing.\<close>

fun pool_step :: "pool \<Rightarrow> pool_event \<Rightarrow> pool" where
  "pool_step pl (StartSelect ip) =
     start_job (select_prog (lb_strategy (pl_lb pl)) (length (lb_backends (pl_lb pl))) ip) pl"
| "pool_step pl (StartDrop i) =
     (if i \<in># pl_guards pl
      then start_job (void (drop_guard_prog i)) (pl\<lparr>pl_guards := pl_guards pl - {#i#}\<rparr>) else pl)"
| "pool_step pl (StartSuccess url) = start_job (void (success_prog (lb_urls (pl_lb pl)) url)) pl"
| "pool_step pl (StartFailure url) = start_job (void (failure_prog (lb_urls (pl_lb pl)) url)) pl"
| "pool_step pl (Work j t) =
     (if j < length (pl_jobs pl) then
        (let (p, lb) = access t (pl_jobs pl ! j) (pl_lb pl)
         in pl\<lparr>pl_lb := lb, pl_jobs := (pl_jobs pl)[j := p]\<rparr>)
      else pl)"
| "pool_step pl (Finish j) =
     (if j < length (pl_jobs pl) then
        (case pl_jobs pl ! j of
           Ret r \<Rightarrow> pl\<lparr>pl_jobs := (pl_jobs pl)[j := Ret None], pl_guards := pl_guards pl + guard_of r\<rparr>
         | _ \<Rightarrow> pl)
      else pl)"

definition pool_run :: "pool \<Rightarrow> pool_event list \<Rightarrow> pool" where
  "pool_run pl es = foldl pool_step pl es"

definition pool_new :: "domain_config \<Rightarrow> pool" where
  "pool_new cfg = \<lparr>pl_lb = load_balancer_new cfg, pl_jobs = [], pl_guards = {#}\<rparr>"

lemma pool_run_simps [simp]:
  "pool_run pl [] = pl" "pool_run pl (e # es) = pool_run (pool_step pl e) es"
  by (simp_all add: pool_run_def)

lemma pool_run_append: "pool_run pl (es @ fs) = pool_run (pool_run pl es) fs"
  by (simp add: pool_run_def)

section \<open>Who owns which guard\<close>

text \<open>
  \<open>typed n post p H\<close>: on \<open>n\<close> backends and owning the guards \<open>H\<close>, the operation \<open>p\<close> only touches
  backends that exist, only releases what it owns, and ends with a result and guards as in \<open>post\<close>,
  whatever its accesses return.
\<close>

primrec typed :: "nat \<Rightarrow> ('r \<Rightarrow> nat multiset \<Rightarrow> bool) \<Rightarrow> 'r prog \<Rightarrow> nat multiset \<Rightarrow> bool" where
  "typed n post (Ret r) = (\<lambda>H. post r H)"
| "typed n post (LoadOpen i k) = (\<lambda>H. i < n \<and> (\<forall>x. typed n post (k x) H))"
| "typed n post (StoreOpen i v p) = (\<lambda>H. i < n \<and> typed n post p H)"
| "typed n post (FetchAddFailures i k) = (\<lambda>H. i < n \<and> (\<forall>x. typed n post (k x) H))"
| "typed n post (StoreFailures i v p) = (\<lambda>H. i < n \<and> typed n post p H)"
| "typed n post (LoadLast i k) = (\<lambda>H. i < n \<and> (\<forall>x. typed n post (k x) H))"
| "typed n post (StoreLast i v p) = (\<lambda>H. i < n \<and> typed n post p H)"
| "typed n post (FetchAddActive i p) = (\<lambda>H. i < n \<and> typed n post p (add_mset i H))"
| "typed n post (FetchSubActive i p) = (\<lambda>H. i \<in># H \<and> typed n post p (H - {#i#}))"
| "typed n post (LoadActive i k) = (\<lambda>H. i < n \<and> (\<forall>x. typed n post (k x) H))"
| "typed n post (FetchAddCursor k) = (\<lambda>H. \<forall>x. typed n post (k x) H)"
| "typed n post (UnixNow k) = (\<lambda>H. \<forall>x. typed n post (k x) H)"

definition well_typed :: "nat \<Rightarrow> nat option prog \<Rightarrow> nat multiset \<Rightarrow> bool" where
  "well_typed n p H \<longleftrightarrow> typed n (\<lambda>r H. H = guard_of r) p H"

text \<open>The guards an operation must own, read off its tree.\<close>

primrec owed :: "('r \<Rightarrow> nat multiset) \<Rightarrow> 'r prog \<Rightarrow> nat multiset" where
  "owed g (Ret r) = g r"
| "owed g (LoadOpen i k) = owed g (k False)"
| "owed g (StoreOpen i v p) = owed g p"
| "owed g (FetchAddFailures i k) = owed g (k 0)"
| "owed g (StoreFailures i v p) = owed g p"
| "owed g (LoadLast i k) = owed g (k 0)"
| "owed g (StoreLast i v p) = owed g p"
| "owed g (FetchAddActive i p) = owed g p - {#i#}"
| "owed g (FetchSubActive i p) = add_mset i (owed g p)"
| "owed g (LoadActive i k) = owed g (k 0)"
| "owed g (FetchAddCursor k) = owed g (k 0)"
| "owed g (UnixNow k) = owed g (k 0)"

abbreviation owes :: "nat option prog \<Rightarrow> nat multiset" where
  "owes \<equiv> owed guard_of"

lemma typed_owed: "typed n (\<lambda>r H. H = g r) p H \<Longrightarrow> owed g p = H"
  by (induction p arbitrary: H; force)

lemma typed_bind [simp]:
  "typed n post (bind p f) H \<longleftrightarrow> typed n (\<lambda>r H. typed n post (f r) H) p H"
  by (induction p arbitrary: H) simp_all

lemma typed_is_healthy [simp]:
  "i < n \<Longrightarrow> post True H \<Longrightarrow> post False H \<Longrightarrow> typed n post (is_healthy_prog i) H"
  by (simp add: is_healthy_prog_def)

lemma typed_round_robin: "0 < n \<Longrightarrow> (\<And>r. (\<forall>i. r = Some i \<longrightarrow> i < n) \<Longrightarrow> post r H) \<Longrightarrow>
    typed n post (round_robin_prog n k) H"
  by (induction k) (simp_all add: Let_def)

lemma typed_ip_hash: "0 < n \<Longrightarrow> (\<And>r. (\<forall>i. r = Some i \<longrightarrow> i < n) \<Longrightarrow> post r H) \<Longrightarrow>
    typed n post (ip_hash_prog h n k i) H"
  by (induction k arbitrary: i) (simp_all add: Let_def)

lemma typed_least_connections:
  assumes "\<And>r. (\<forall>i. r = Some i \<longrightarrow> i < n) \<Longrightarrow> post r H" and "i + k \<le> n"
    and "\<forall>j a. best = Some (j, a) \<longrightarrow> j < n"
  shows "typed n post (least_connections_prog k i best) H"
  using assms(2,3)
proof (induction k arbitrary: i best)
  case 0
  then show ?case by (auto intro!: assms(1))
next
  case (Suc k)
  then show ?case by (simp add: split: option.splits)
qed


lemma well_typed_owes: "well_typed n p H \<Longrightarrow> owes p = H"
  unfolding well_typed_def by (rule typed_owed)

lemma well_typed_select: "well_typed n (select_prog st n ip) {#}"
proof (cases "n = 0")
  case False
  let ?post = "\<lambda>r H. typed n (\<lambda>r H. H = guard_of r)
      (case r of None \<Rightarrow> Ret None | Some i \<Rightarrow> FetchAddActive i (Ret (Some i))) H"
  have "?post r {#}" if "\<forall>i. r = Some i \<longrightarrow> i < n" for r
    using that by (cases r) (auto simp: guard_of_def)
  then have "typed n ?post (pick_prog st n ip) {#}"
    using False
    by (auto simp: pick_prog_def split: load_balance.split
        intro!: typed_round_robin typed_ip_hash typed_least_connections)
  with False show ?thesis by (simp add: well_typed_def select_prog_def)
qed (simp add: well_typed_def select_prog_def guard_of_def)

lemma find_url_less: "find_url url urls = Some i \<Longrightarrow> i < length urls"
  by (induction urls arbitrary: i) (auto split: if_splits)

lemma well_typed_feedback:
  "length urls = n \<Longrightarrow> well_typed n (void (success_prog urls url)) {#}"
  "length urls = n \<Longrightarrow> well_typed n (void (failure_prog urls url)) {#}"
  by (auto simp: well_typed_def void_def success_prog_def failure_prog_def record_success_prog_def
      record_failure_prog_def guard_of_def Let_def find_url_less split: option.split)

lemma well_typed_drop: "well_typed n (void (drop_guard_prog i)) {#i#}"
  by (simp add: well_typed_def void_def drop_guard_prog_def guard_of_def)

text \<open>An access keeps the type: what is left owns what it must own.\<close>

lemma well_typed_access:
  assumes "well_typed n p H"
  shows "\<exists>H'. well_typed n (fst (access t p lb)) H'"
  using assms by (cases p) (auto simp: well_typed_def)

text \<open>
  C18: Every operation of the balancer keeps to its guards: on any number of backends and whatever
  its accesses return, it touches only backends that exist and releases only a guard it owns; a
  selection ends owning exactly the guard it returns, every other operation ends owning nothing;
  and an access turns a well-typed operation into a well-typed one.
\<close>

theorem operations_well_typed:
  "well_typed n (select_prog st n ip) {#} \<and>
   well_typed n (void (drop_guard_prog i)) {#i#} \<and>
   well_typed (length urls) (void (success_prog urls url)) {#} \<and>
   well_typed (length urls) (void (failure_prog urls url)) {#} \<and>
   (well_typed n p H \<longrightarrow>
      well_typed n (fst (access t p lb)) (owes (fst (access t p lb))))"
proof -
  have "well_typed n (fst (access t p lb)) (owes (fst (access t p lb)))" if "well_typed n p H"
  proof -
    obtain H' where "well_typed n (fst (access t p lb)) H'" using well_typed_access [OF \<open>well_typed n p H\<close>] by blast
    then show ?thesis using well_typed_owes [of n "fst (access t p lb)" H'] by simp
  qed
  then show ?thesis by (simp add: well_typed_select well_typed_feedback well_typed_drop)
qed

theorem operations_well_typed_witness:
  "well_typed 2 (fst (access 0 (void (drop_guard_prog 1))
     \<lparr>lb_backends = [], lb_strategy = RoundRobin, lb_cursor = 0\<rparr>)) {#}"
  using operations_well_typed [of 2 RoundRobin None 1 "[]" "[]" "void (drop_guard_prog 1)" "{#1#}" 0
      "\<lparr>lb_backends = [], lb_strategy = RoundRobin, lb_cursor = 0\<rparr>"]
  by (simp add: well_typed_drop) (simp add: void_def drop_guard_prog_def guard_of_def)

section \<open>Active counts in every interleaving\<close>

lemma update_backend_frame_map:
  "(\<And>b. g (f b) = g b) \<Longrightarrow> map g (lb_backends (update_backend i f lb)) = map g (lb_backends lb)"
  by (simp add: update_backend_def map_update_id)

lemma access_frame:
  "length (lb_backends (snd (access t p lb))) = length (lb_backends lb)"
  "lb_urls (snd (access t p lb)) = lb_urls lb"
  "lb_strategy (snd (access t p lb)) = lb_strategy lb"
proof -
  show "length (lb_backends (snd (access t p lb))) = length (lb_backends lb)" by (cases p) simp_all
  show "lb_strategy (snd (access t p lb)) = lb_strategy lb" by (cases p) simp_all
  have "map b_url (lb_backends (snd (access t p lb))) = map b_url (lb_backends lb)"
    by (cases p) (simp_all add: update_backend_def map_update_id acquire_def release_def)
  then show "lb_urls (snd (access t p lb)) = lb_urls lb" by (simp add: lb_urls_def)
qed

lemma access_tracks:
  assumes "well_typed n p H" and "length (lb_backends lb) = n"
    and "guards.tracks lb (R + H)" and "size (R + H) < 2 ^ 64 - 1"
  shows "guards.tracks (snd (access t p lb)) (R + owes (fst (access t p lb))) \<and>
    size (owes (fst (access t p lb))) \<le> Suc (size H)"
proof -
  obtain H' where H': "well_typed n (fst (access t p lb)) H'"
    using well_typed_access [OF assms(1)] by blast
  have same: "guards.tracks (update_backend i f lb) (R + H)" if "\<And>b. b_active (f b) = b_active b" for i f
    using assms(3) tracks_cong [OF update_backend_frame_map [of b_active f, OF that]] by simp
  have cursor: "guards.tracks (lb\<lparr>lb_cursor := c\<rparr>) (R + H)" for c
    using assms(3) tracks_cong [of "lb\<lparr>lb_cursor := c\<rparr>" lb] by simp
  consider (take) i q where "p = FetchAddActive i q" | (drop) i q where "p = FetchSubActive i q"
    | (other) "\<forall>i q. p \<noteq> FetchAddActive i q" "\<forall>i q. p \<noteq> FetchSubActive i q"
    by (cases p) auto
  then show ?thesis
  proof cases
    case take
    then have q: "i < n" "well_typed n q (add_mset i H)" using assms(1) by (simp_all add: well_typed_def)
    have "lb_active lb i \<le> size (R + H)"
      using assms(3) by (simp add: guards.tracks_def) (metis count_le_size count_union size_union)
    then have "lb_active lb i < lb_limit lb i" using assms(2,4) q(1) by (simp add: lb_limit_def)
    from guards.tracks_acq [OF assms(3) this] show ?thesis
      using take q(2) by (simp add: well_typed_owes take_guard_def)
  next
    case drop
    then have q: "i \<in># H" "well_typed n q (H - {#i#})" using assms(1) by (simp_all add: well_typed_def)
    then have rest: "i \<in># R + H" "R + H - {#i#} = R + (H - {#i#})" by simp_all
    have "guards.tracks (drop_guard i lb) (R + (H - {#i#}))"
      using guards.tracks_rel [OF assms(3) rest(1)] unfolding rest(2) .
    moreover have "owes q = H - {#i#}" using q(2) by (rule well_typed_owes)
    moreover have "size (H - {#i#}) \<le> Suc (size H)" by (simp add: size_mset_mono le_SucI)
    ultimately show ?thesis using drop by (simp add: drop_guard_def)
  next
    case other
    have "well_typed n (fst (access t p lb)) H" using assms(1) other by (cases p) (auto simp: well_typed_def)
    then have "owes (fst (access t p lb)) = H" by (rule well_typed_owes)
    moreover have "guards.tracks (snd (access t p lb)) (R + H)"
      using other by (cases p) (simp_all add: same cursor assms(3))
    ultimately show ?thesis by simp
  qed
qed


lemma sum_map_split:
  assumes "j < length xs"
  obtains R where "sum_list (map g xs) = R + (g (xs ! j) :: 'a::comm_monoid_add)"
    and "\<And>y. sum_list (map g (xs[j := y])) = R + g y"
proof -
  have "\<exists>R. \<forall>y. sum_list (map g (xs[j := y])) = R + g y"
    using assms
  proof (induction xs arbitrary: j)
    case (Cons x xs)
    show ?case
    proof (cases j)
      case 0
      then have "sum_list (map g ((x # xs)[j := y])) = sum_list (map g xs) + g y" for y
        by (simp add: add.commute)
      then show ?thesis by blast
    next
      case (Suc i)
      with Cons.prems have "i < length xs" by simp
      then obtain R where "\<forall>y. sum_list (map g (xs[i := y])) = R + g y" using Cons.IH by blast
      then have "sum_list (map g ((x # xs)[j := y])) = (g x + R) + g y" for y
        using Suc by (simp add: add.assoc)
      then show ?thesis by blast
    qed
  qed simp
  then obtain R where R: "\<And>y. sum_list (map g (xs[j := y])) = R + g y" by blast
  from R [of "xs ! j"] assms have "sum_list (map g xs) = R + g (xs ! j)" by simp
  with R that show thesis by blast
qed

definition owed_by :: "pool \<Rightarrow> nat multiset" where
  "owed_by pl = sum_list (map owes (pl_jobs pl))"

definition pool_ok :: "nat \<Rightarrow> pool \<Rightarrow> bool" where
  "pool_ok n pl \<longleftrightarrow> length (lb_backends (pl_lb pl)) = n \<and>
     (\<forall>p \<in> set (pl_jobs pl). well_typed n p (owes p)) \<and>
     guards.tracks (pl_lb pl) (pl_guards pl + owed_by pl)"

lemma start_job_ok:
  assumes "pool_ok n (pl\<lparr>pl_guards := pl_guards pl + H\<rparr>)" and "well_typed n p H"
  shows "pool_ok n (start_job p pl) \<and>
    pl_guards (start_job p pl) + owed_by (start_job p pl) = pl_guards pl + H + owed_by pl"
proof -
  have H: "owes p = H" using assms(2) by (rule well_typed_owes)
  then have sum: "pl_guards (start_job p pl) + owed_by (start_job p pl) = pl_guards pl + H + owed_by pl"
    by (simp add: start_job_def owed_by_def add_ac)
  have "guards.tracks (pl_lb pl) (pl_guards pl + H + owed_by pl)"
    using assms(1) by (simp add: pool_ok_def owed_by_def)
  with assms H sum show ?thesis by (simp add: pool_ok_def start_job_def add.assoc)
qed

lemma start_free_job_ok:
  assumes "pool_ok n pl" and "well_typed n p {#}"
  shows "pool_ok n (start_job p pl) \<and>
    pl_guards (start_job p pl) + owed_by (start_job p pl) = pl_guards pl + owed_by pl"
  using start_job_ok [of n pl "{#}" p] assms by simp

lemma work_ok:
  assumes ok: "pool_ok n pl" and size: "size (pl_guards pl + owed_by pl) < 2 ^ 64 - 1"
  shows "pool_ok n (pool_step pl (Work j t)) \<and>
    size (pl_guards (pool_step pl (Work j t)) + owed_by (pool_step pl (Work j t)))
      \<le> Suc (size (pl_guards pl + owed_by pl))"
proof (cases "j < length (pl_jobs pl)")
  case True
  let ?p = "pl_jobs pl ! j"
  obtain p lb where acc: "access t ?p (pl_lb pl) = (p, lb)" by fastforce
  obtain R where R: "owed_by pl = R + owes ?p"
    "\<And>p. sum_list (map owes ((pl_jobs pl)[j := p])) = R + owes p"
    unfolding owed_by_def by (rule sum_map_split [OF True, where g = owes]) blast
  have n: "length (lb_backends (pl_lb pl)) = n" and tp: "well_typed n ?p (owes ?p)"
    and tr: "guards.tracks (pl_lb pl) ((pl_guards pl + R) + owes ?p)"
    and sz: "size ((pl_guards pl + R) + owes ?p) < 2 ^ 64 - 1"
    using ok size True by (simp_all add: pool_ok_def R(1) add_ac)
  have "guards.tracks lb ((pl_guards pl + R) + owes p)" "size (owes p) \<le> Suc (size (owes ?p))"
    using access_tracks [OF tp n tr sz, of t] acc by simp_all
  moreover have "well_typed n p (owes p)"
  proof -
    obtain H' where H': "well_typed n p H'" using well_typed_access [OF tp, of t "pl_lb pl"] acc by auto
    then show ?thesis using well_typed_owes [OF H'] by simp
  qed
  moreover have "length (lb_backends lb) = n" using access_frame(1) [of t ?p "pl_lb pl"] acc n by simp
  ultimately show ?thesis
    using ok True acc R
    by (auto simp: pool_ok_def owed_by_def add_ac dest!: set_update_subset_insert [THEN subsetD])
qed (use ok in simp)

lemma finish_ok:
  assumes ok: "pool_ok n pl"
  shows "pool_ok n (pool_step pl (Finish j)) \<and>
    pl_guards (pool_step pl (Finish j)) + owed_by (pool_step pl (Finish j)) = pl_guards pl + owed_by pl"
proof (cases "\<exists>r. j < length (pl_jobs pl) \<and> pl_jobs pl ! j = Ret r")
  case True
  then obtain r where j: "j < length (pl_jobs pl)" and r: "pl_jobs pl ! j = Ret r" by blast
  obtain R where R: "owed_by pl = R + owes (pl_jobs pl ! j)"
    "\<And>p. sum_list (map owes ((pl_jobs pl)[j := p])) = R + owes p"
    unfolding owed_by_def by (rule sum_map_split [OF j, where g = owes]) blast
  have none: "owes (Ret None) = {#}" "well_typed n (Ret None) {#}"
    by (simp_all add: guard_of_def well_typed_def)
  have sum: "pl_guards (pool_step pl (Finish j)) + owed_by (pool_step pl (Finish j)) = pl_guards pl + owed_by pl"
    using j r R none by (simp add: owed_by_def add_ac)
  have "guards.tracks (pl_lb pl) (pl_guards pl + owed_by pl)" using ok by (simp add: pool_ok_def)
  then have "guards.tracks (pl_lb (pool_step pl (Finish j)))
      (pl_guards (pool_step pl (Finish j)) + owed_by (pool_step pl (Finish j)))"
    unfolding sum using j r by simp
  moreover have "\<forall>p \<in> set ((pl_jobs pl)[j := Ret None]). well_typed n p (owes p)"
    using ok none by (auto simp: pool_ok_def dest!: set_update_subset_insert [THEN subsetD])
  ultimately show ?thesis using ok j r sum by (simp add: pool_ok_def)
next
  case False
  then have "pool_step pl (Finish j) = pl" by (auto split: prog.split)
  with ok show ?thesis by simp
qed

lemma pool_step_ok:
  assumes "pool_ok n pl" and "size (pl_guards pl + owed_by pl) < 2 ^ 64 - 1"
  shows "pool_ok n (pool_step pl e) \<and>
    size (pl_guards (pool_step pl e) + owed_by (pool_step pl e)) \<le> Suc (size (pl_guards pl + owed_by pl))"
proof (cases e)
  case (StartDrop i)
  show ?thesis
  proof (cases "i \<in># pl_guards pl")
    case True
    let ?pl = "pl\<lparr>pl_guards := pl_guards pl - {#i#}\<rparr>"
    have "pool_ok n (?pl\<lparr>pl_guards := pl_guards ?pl + {#i#}\<rparr>)" using assms(1) True by simp
    from start_job_ok [OF this well_typed_drop] show ?thesis
      using StartDrop True by (simp add: owed_by_def)
  qed (use assms StartDrop in simp)
next
  case (Work j t)
  with work_ok [OF assms] show ?thesis by simp
next
  case (Finish j)
  with finish_ok [OF assms(1), of j] show ?thesis by simp
next
  case (StartSelect ip)
  have "length (lb_backends (pl_lb pl)) = n" using assms(1) by (simp add: pool_ok_def)
  with start_free_job_ok [OF assms(1) well_typed_select [of n "lb_strategy (pl_lb pl)" ip]] StartSelect
  show ?thesis by simp
next
  case (StartSuccess url)
  have "length (lb_urls (pl_lb pl)) = n" using assms(1) by (simp add: pool_ok_def lb_urls_def)
  from start_free_job_ok [OF assms(1) well_typed_feedback(1) [OF this]] show ?thesis
    using StartSuccess by simp
next
  case (StartFailure url)
  have "length (lb_urls (pl_lb pl)) = n" using assms(1) by (simp add: pool_ok_def lb_urls_def)
  from start_free_job_ok [OF assms(1) well_typed_feedback(2) [OF this]] show ?thesis
    using StartFailure by simp
qed

lemma pool_run_ok:
  assumes "pool_ok n pl" and "size (pl_guards pl + owed_by pl) + length es < 2 ^ 64"
  shows "pool_ok n (pool_run pl es)"
  using assms
proof (induction es arbitrary: pl)
  case (Cons e es)
  then show ?case using pool_step_ok [of n pl e] by simp
qed simp


lemma pool_new_ok: "pool_ok (length (dc_backends cfg)) (pool_new cfg)" "owed_by (pool_new cfg) = {#}"
  by (simp_all add: pool_ok_def pool_new_def load_balancer_new_def owed_by_def guards.tracks_def
      lb_active_def backend_new_def)

text \<open>
  C7: In every interleaving of the accesses of any number of selections, drops of guards and
  reports, the active count of a backend is at every moment the number of guards on it that are
  out, plus those that the operations in progress own.
\<close>

theorem interleaved_counts:
  assumes "length es < 2 ^ 64" and "i < length (dc_backends cfg)"
  shows "unat (b_active (lb_backends (pl_lb (pool_run (pool_new cfg) es)) ! i)) =
    count (pl_guards (pool_run (pool_new cfg) es)) i +
    (\<Sum>p \<leftarrow> pl_jobs (pool_run (pool_new cfg) es). count (owes p) i)"
proof -
  let ?pl = "pool_run (pool_new cfg) es"
  have "size (pl_guards (pool_new cfg) + owed_by (pool_new cfg)) + length es < 2 ^ 64"
    using assms(1) by (simp add: pool_new_ok) (simp add: pool_new_def)
  then have ok: "pool_ok (length (dc_backends cfg)) ?pl" by (rule pool_run_ok [OF pool_new_ok(1)])
  then have "lb_active (pl_lb ?pl) i = unat (b_active (lb_backends (pl_lb ?pl) ! i))"
    using assms(2) by (simp add: pool_ok_def lb_active_def)
  moreover have "lb_active (pl_lb ?pl) i = count (pl_guards ?pl + owed_by ?pl) i"
    using ok by (simp add: pool_ok_def guards.tracks_def)
  moreover have "count (sum_list (map owes ps)) i = (\<Sum>p \<leftarrow> ps. count (owes p) i)" for ps
    by (induction ps) simp_all
  ultimately show ?thesis by (simp add: owed_by_def)
qed

definition sticky_domain :: domain_config where
  "sticky_domain =
     \<lparr>dc_backends = [''u''], dc_load_balance = IpHash, dc_tls = None, dc_static_files = None,
      dc_redirect_to_https = False, dc_health_check = health_check_default, dc_headers = []\<rparr>"

lemmas pool_eval = pool_new_def load_balancer_new_def backend_new_def sticky_domain_def start_job_def
  select_prog_def pick_prog_def is_healthy_prog_def void_def drop_guard_prog_def update_backend_def
  acquire_def release_def guard_of_def hash_of_def numeral_2_eq_2

theorem interleaved_counts_witness:
  "unat (b_active (lb_backends (pl_lb (pool_run (pool_new sticky_domain)
     [StartSelect None, StartSelect None, Work 0 7, Work 1 7, Work 1 7, Work 0 7, Finish 0, StartDrop 0])) ! 0))
   = 2"
proof -
  let ?es = "[StartSelect None, StartSelect None, Work 0 7, Work 1 7, Work 1 7, Work 0 7, Finish 0, StartDrop 0]"
  let ?pl = "pool_run (pool_new sticky_domain) ?es"
  have guards: "pl_guards ?pl = {#}"
    and jobs: "pl_jobs ?pl = [Ret None, Ret (Some 0), FetchSubActive 0 (Ret None)]"
    by (simp_all add: pool_eval)
  have "unat (b_active (lb_backends (pl_lb ?pl) ! 0)) =
      count (pl_guards ?pl) 0 + (\<Sum>p \<leftarrow> pl_jobs ?pl. count (owes p) 0)"
    by (rule interleaved_counts) (simp_all add: sticky_domain_def)
  also have "\<dots> = 2" unfolding guards jobs by (simp add: guard_of_def)
  finally show ?thesis .
qed

end
