(* ===== verification/InterleavingProps.thy ===== *)
theory InterleavingProps
  imports Interleaving
begin

text \<open>
  What holds of the balancer of \<^verbatim>\<open>src/src/load_balancer.rs\<close> in every interleaving of its atomics, and
  what does not: operations are wait-free, a circuit opens only after five reported failures, but a
  report is not atomic and can be lost or revived by another operation in between.
\<close>

section \<open>Wait-freedom\<close>

text \<open>The operation \<open>p\<close> takes at most \<open>c\<close> accesses, whatever they return.\<close>

primrec within :: "'r prog \<Rightarrow> nat \<Rightarrow> bool" where
  "within (Ret r) = (\<lambda>c. True)"
| "within (LoadOpen i k) = (\<lambda>c. c \<noteq> 0 \<and> (\<forall>x. within (k x) (c - 1)))"
| "within (StoreOpen i v p) = (\<lambda>c. c \<noteq> 0 \<and> within p (c - 1))"
| "within (FetchAddFailures i k) = (\<lambda>c. c \<noteq> 0 \<and> (\<forall>x. within (k x) (c - 1)))"
| "within (StoreFailures i v p) = (\<lambda>c. c \<noteq> 0 \<and> within p (c - 1))"
| "within (LoadLast i k) = (\<lambda>c. c \<noteq> 0 \<and> (\<forall>x. within (k x) (c - 1)))"
| "within (StoreLast i v p) = (\<lambda>c. c \<noteq> 0 \<and> within p (c - 1))"
| "within (FetchAddActive i p) = (\<lambda>c. c \<noteq> 0 \<and> within p (c - 1))"
| "within (FetchSubActive i p) = (\<lambda>c. c \<noteq> 0 \<and> within p (c - 1))"
| "within (LoadActive i k) = (\<lambda>c. c \<noteq> 0 \<and> (\<forall>x. within (k x) (c - 1)))"
| "within (FetchAddCursor k) = (\<lambda>c. c \<noteq> 0 \<and> (\<forall>x. within (k x) (c - 1)))"
| "within (UnixNow k) = (\<lambda>c. c \<noteq> 0 \<and> (\<forall>x. within (k x) (c - 1)))"

lemma within_mono: "within p c \<Longrightarrow> c \<le> d \<Longrightarrow> within p d"
  by (induction p arbitrary: c d; simp; metis diff_le_mono le_zero_eq rangeI)

lemma within_bind:
  "within p c \<Longrightarrow> (\<And>r. within (f r) d) \<Longrightarrow> within (bind p f) (c + d)"
proof (induction p arbitrary: c)
  case (Ret r)
  then show ?case by (simp add: within_mono [of _ d])
next
  case (StoreOpen i v p)
  then show ?case using StoreOpen.IH [of "c - 1"] by simp
next
  case (StoreFailures i v p)
  then show ?case using StoreFailures.IH [of "c - 1"] by simp
next
  case (StoreLast i v p)
  then show ?case using StoreLast.IH [of "c - 1"] by simp
next
  case (FetchAddActive i p)
  then show ?case using FetchAddActive.IH [of "c - 1"] by simp
next
  case (FetchSubActive i p)
  then show ?case using FetchSubActive.IH [of "c - 1"] by simp
qed (simp; metis rangeI add_diff_assoc2 One_nat_def Suc_leI gr0I)+

lemma within_is_healthy: "within (is_healthy_prog i) 5"
  by (simp add: is_healthy_prog_def)

lemma within_strategies:
  "within (round_robin_prog n k) (6 * k)" "within (ip_hash_prog h n k i) (6 * k)"
  "within (least_connections_prog k i best) (6 * k)"
proof -
  have step: "within (bind (is_healthy_prog j) f) (5 + c)" if "\<And>ok. within (f ok) c" for j and f :: "bool \<Rightarrow> 'a prog" and c
    using within_bind [OF within_is_healthy, of f c] that by simp
  show "within (round_robin_prog n k) (6 * k)"
  proof (induction k)
    case (Suc k)
    have "within (if ok then Ret (Some idx) else round_robin_prog n k) (6 * k)" for ok idx
      using Suc by simp
    from step [OF this] show ?case by (simp add: Let_def)
  qed simp
  show "within (ip_hash_prog h n k i) (6 * k)"
  proof (induction k arbitrary: i)
    case (Suc k)
    have "within (if ok then Ret (Some idx) else ip_hash_prog h n k (Suc i)) (Suc (6 * k))" for ok idx
      using within_mono [OF Suc, of "Suc (6 * k)" "Suc i"] by simp
    from step [OF this] show ?case by (simp add: Let_def)
  qed simp
  show "within (least_connections_prog k i best) (6 * k)"
  proof (induction k arbitrary: i best)
    case (Suc k)
    have "within (if ok then LoadActive i (\<lambda>c. least_connections_prog k (Suc i) (b c))
        else least_connections_prog k (Suc i) best) (Suc (6 * k))" for ok b
      using Suc within_mono [OF Suc, of "Suc (6 * k)" "Suc i" best] by simp
    from step [OF this] show ?case by simp
  qed simp
qed

lemma within_operations:
  "within (select_prog st n ip) (6 * n + 4)" "within (void (drop_guard_prog i)) (6 * n + 4)"
  "within (void (success_prog urls url)) (6 * n + 4)" "within (void (failure_prog urls url)) (6 * n + 4)"
proof -
  have pick: "within (pick_prog st n ip) (6 * n)"
    by (simp add: pick_prog_def within_strategies split: load_balance.split)
  have fin: "within (case r of None \<Rightarrow> Ret None | Some i \<Rightarrow> FetchAddActive i (Ret (Some i))) 4" for r
    by (simp split: option.split)
  show "within (select_prog st n ip) (6 * n + 4)"
    using within_bind [OF pick, of _ 4, OF fin] by (simp add: select_prog_def)
qed (simp_all add: void_def drop_guard_prog_def success_prog_def failure_prog_def record_success_prog_def
      record_failure_prog_def Let_def split: option.split)

lemma within_access: "within p c \<Longrightarrow> within (fst (access t p lb)) (c - 1)"
  by (cases p) simp_all

definition works :: "nat \<Rightarrow> pool_event list \<Rightarrow> nat" where
  "works j es = length (filter (\<lambda>e. case e of Work i _ \<Rightarrow> i = j | _ \<Rightarrow> False) es)"

lemma works_Cons:
  "works j (e # es) = (case e of Work i t \<Rightarrow> if i = j then Suc (works j es) else works j es | _ \<Rightarrow> works j es)"
  by (auto simp: works_def split: pool_event.split)

lemma job_step:
  assumes "j < length (pl_jobs pl)" and "within (pl_jobs pl ! j) c"
  shows "j < length (pl_jobs (pool_step pl e)) \<and>
    within (pl_jobs (pool_step pl e) ! j) (case e of Work i t \<Rightarrow> if i = j then c - 1 else c | _ \<Rightarrow> c)"
proof (cases e)
  case (Work i t)
  obtain p lb where acc: "access t (pl_jobs pl ! i) (pl_lb pl) = (p, lb)" by fastforce
  show ?thesis
    using assms Work acc within_access [OF assms(2), of t "pl_lb pl"] by (cases "i = j") auto
next
  case (Finish i)
  with assms show ?thesis by (cases "i = j") (auto split: prog.split)
qed (use assms in \<open>auto simp: start_job_def nth_append\<close>)

lemma job_run:
  assumes "j < length (pl_jobs pl)" and "within (pl_jobs pl ! j) c"
  shows "within (pl_jobs (pool_run pl es) ! j) (c - works j es)"
  using assms
proof (induction es arbitrary: pl c)
  case (Cons e es)
  from Cons.IH [OF conjunct1 [OF job_step [OF Cons.prems]] conjunct2 [OF job_step [OF Cons.prems, of e]]]
  show ?case by (auto simp: works_Cons split: pool_event.splits if_splits)
qed (simp add: works_def)

lemma within_0: "within p 0 \<Longrightarrow> \<exists>r. p = Ret r"
  by (cases p) simp_all

text \<open>
  C19: The operations are wait-free: on \<open>n\<close> backends an operation that was started is finished
  after at most \<open>6 n + 4\<close> accesses of its own, whatever the other jobs do in between and however many
  there are.
\<close>

theorem operations_are_wait_free:
  assumes "length (pl_jobs (pool_step pl e)) = Suc (length (pl_jobs pl))"
    and "6 * length (lb_backends (pl_lb pl)) + 4 \<le> works (length (pl_jobs pl)) es"
  shows "\<exists>r. pl_jobs (pool_run (pool_step pl e) es) ! length (pl_jobs pl) = Ret r"
proof -
  let ?j = "length (pl_jobs pl)" and ?c = "6 * length (lb_backends (pl_lb pl)) + 4"
  have "within (pl_jobs (pool_step pl e) ! ?j) ?c"
    using assms(1) within_operations
    by (cases e) (auto simp: start_job_def lb_urls_def split: prod.splits prog.splits if_splits)
  then have "within (pl_jobs (pool_run (pool_step pl e) es) ! ?j) (?c - works ?j es)"
    using assms(1) by (intro job_run) simp_all
  then show ?thesis using assms(2) by (intro within_0) simp
qed

theorem operations_are_wait_free_witness:
  "\<exists>r. pl_jobs (pool_run (pool_step (pool_new sticky_domain) (StartSelect None))
     (concat (replicate 10 [StartFailure ''u'', Work 0 50]))) ! 0 = Ret r"
proof -
  have start: "length (pl_jobs (pool_step (pool_new sticky_domain) (StartSelect None))) =
      Suc (length (pl_jobs (pool_new sticky_domain)))" by (simp add: start_job_def)
  have "length (pl_jobs (pool_new sticky_domain)) = 0" by (simp add: pool_new_def)
  moreover have "6 * length (lb_backends (pl_lb (pool_new sticky_domain))) + 4 \<le>
      works (length (pl_jobs (pool_new sticky_domain))) (concat (replicate 10 [StartFailure ''u'', Work 0 50]))"
    by (simp add: works_def numeral_eq_Suc pool_eval)
  ultimately show ?thesis using operations_are_wait_free [OF start] by metis
qed


section \<open>A circuit opens only after five reports\<close>

text \<open>
  \<open>tame p T K\<close>: the operation \<open>p\<close> may still count failures for the backends in \<open>T\<close>, and when it
  opens a circuit it knows of five reports, where \<open>K\<close> of them are known now. Having read \<open>x\<close> from
  the counter it knows of \<open>x + 1\<close>.
\<close>

primrec tame :: "'r prog \<Rightarrow> nat multiset \<Rightarrow> (nat \<Rightarrow> nat) \<Rightarrow> bool" where
  "tame (Ret r) = (\<lambda>T K. T = {#})"
| "tame (LoadOpen i k) = (\<lambda>T K. \<forall>x. tame (k x) T K)"
| "tame (StoreOpen i v p) = (\<lambda>T K. (v \<longrightarrow> 5 \<le> K i) \<and> tame p T K)"
| "tame (FetchAddFailures i k) =
     (\<lambda>T K. i \<in># T \<and> (\<forall>x. tame (k x) (T - {#i#}) (K(i := max (K i) (Suc (unat x))))))"
| "tame (StoreFailures i v p) = (\<lambda>T K. v = 0 \<and> tame p T K)"
| "tame (LoadLast i k) = (\<lambda>T K. \<forall>x. tame (k x) T K)"
| "tame (StoreLast i v p) = (\<lambda>T K. tame p T K)"
| "tame (FetchAddActive i p) = (\<lambda>T K. tame p T K)"
| "tame (FetchSubActive i p) = (\<lambda>T K. tame p T K)"
| "tame (LoadActive i k) = (\<lambda>T K. \<forall>x. tame (k x) T K)"
| "tame (FetchAddCursor k) = (\<lambda>T K. \<forall>x. tame (k x) T K)"
| "tame (UnixNow k) = (\<lambda>T K. \<forall>x. tame (k x) T K)"

text \<open>The failures an operation has still to count.\<close>

primrec uncounted :: "'r prog \<Rightarrow> nat multiset" where
  "uncounted (Ret r) = {#}"
| "uncounted (LoadOpen i k) = uncounted (k False)"
| "uncounted (StoreOpen i v p) = uncounted p"
| "uncounted (FetchAddFailures i k) = add_mset i (uncounted (k 0))"
| "uncounted (StoreFailures i v p) = uncounted p"
| "uncounted (LoadLast i k) = uncounted (k 0)"
| "uncounted (StoreLast i v p) = uncounted p"
| "uncounted (FetchAddActive i p) = uncounted p"
| "uncounted (FetchSubActive i p) = uncounted p"
| "uncounted (LoadActive i k) = uncounted (k 0)"
| "uncounted (FetchAddCursor k) = uncounted (k 0)"
| "uncounted (UnixNow k) = uncounted (k 0)"

lemma tame_uncounted: "tame p T K \<Longrightarrow> uncounted p = T"
proof (induction p arbitrary: T K)
  case (FetchAddFailures i k)
  then have i: "i \<in># T" and "tame (k 0) (T - {#i#}) (K(i := max (K i) (Suc (unat (0 :: usize)))))"
    by (simp_all only: tame.simps)
  then have "uncounted (k 0) = T - {#i#}" using FetchAddFailures.IH [of "k 0"] by blast
  with i show ?case by simp
qed (simp; blast)+

lemma tame_mono: "tame p T K \<Longrightarrow> (\<And>i. K i \<le> K' i) \<Longrightarrow> tame p T K'"
proof (induction p arbitrary: T K K')
  case (FetchAddFailures i k)
  have "(K(i := max (K i) y)) j \<le> (K'(i := max (K' i) y)) j" for j y
    using FetchAddFailures.prems(2) [of j] by (auto simp: max_def)
  then show ?case using FetchAddFailures.prems(1) FetchAddFailures.IH by (simp del: fun_upd_apply) blast
next
  case (StoreOpen i v p)
  then show ?case using order_trans [OF _ StoreOpen.prems(2)] by simp blast
qed (simp; blast)+

lemma tame_bind: "tame p {#} K \<Longrightarrow> (\<And>r K. tame (f r) {#} K) \<Longrightarrow> tame (bind p f) {#} K"
  by (induction p arbitrary: K) simp_all

lemma tame_is_healthy [simp]: "tame (is_healthy_prog i) {#} K"
  by (simp add: is_healthy_prog_def)

lemma tame_strategies:
  "tame (round_robin_prog n k) {#} K" "tame (ip_hash_prog h n k i) {#} K"
  "tame (least_connections_prog k i best) {#} K"
proof -
  show "tame (round_robin_prog n k) {#} K"
    by (induction k arbitrary: K) (simp_all add: Let_def tame_bind)
  show "tame (ip_hash_prog h n k i) {#} K"
    by (induction k arbitrary: i K) (simp_all add: Let_def tame_bind)
  show "tame (least_connections_prog k i best) {#} K"
    by (induction k arbitrary: i best K) (simp_all add: tame_bind)
qed

lemma tame_select: "tame (select_prog st n ip) {#} K"
  by (auto simp: select_prog_def pick_prog_def tame_strategies
      intro!: tame_bind split: load_balance.split option.split)

lemma tame_other:
  "tame (void (drop_guard_prog i)) {#} K" "tame (void (success_prog urls url)) {#} K"
  by (simp_all add: void_def drop_guard_prog_def success_prog_def record_success_prog_def split: option.split)

lemma threshold_word: "CB_THRESHOLD \<le> x + 1 \<Longrightarrow> 5 \<le> Suc (unat x)"
proof -
  assume "CB_THRESHOLD \<le> x + 1"
  then have "5 \<le> unat (x + 1)" by (simp add: CB_THRESHOLD_def word_le_nat_alt)
  also have "unat (x + 1) \<le> Suc (unat x)" by (simp add: unat_word_ariths)
  finally show ?thesis .
qed

text \<open>The backend whose circuit hears of a report, if any.\<close>

definition target :: "string list \<Rightarrow> string \<Rightarrow> nat multiset" where
  "target urls url = guard_of (find_url url urls)"

lemma tame_failure: "tame (void (failure_prog urls url)) (target urls url) K"
  using threshold_word
  by (auto simp: void_def failure_prog_def record_failure_prog_def target_def guard_of_def Let_def
      le_max_iff_disj split: option.split)


definition uncounted_by :: "pool \<Rightarrow> nat multiset" where
  "uncounted_by pl = sum_list (map uncounted (pl_jobs pl))"

text \<open>\<open>F\<close>: the reports for each backend so far.\<close>

definition breaker_ok :: "string list \<Rightarrow> (nat \<Rightarrow> nat) \<Rightarrow> pool \<Rightarrow> bool" where
  "breaker_ok urls F pl \<longleftrightarrow> lb_urls (pl_lb pl) = urls \<and>
     (\<forall>p \<in> set (pl_jobs pl). tame p (uncounted p) F) \<and>
     set_mset (uncounted_by pl) \<subseteq> {..<length urls} \<and>
     (\<forall>i < length urls.
        unat (b_failures (lb_backends (pl_lb pl) ! i)) + count (uncounted_by pl) i \<le> F i \<and>
        (b_circuit_open (lb_backends (pl_lb pl) ! i) \<longrightarrow> 5 \<le> F i))"

lemma start_job_breaker:
  assumes ok: "breaker_ok urls F pl" and t: "\<And>K. tame p T K" and T: "set_mset T \<subseteq> {..<length urls}"
  shows "breaker_ok urls (\<lambda>i. F i + count T i) (start_job p (pl\<lparr>pl_guards := G\<rparr>))"
proof -
  have "uncounted p = T" by (rule tame_uncounted [OF t [of F]])
  then have "uncounted_by (start_job p (pl\<lparr>pl_guards := G\<rparr>)) = T + uncounted_by pl"
    and "tame p (uncounted p) (\<lambda>i. F i + count T i)"
    using t by (simp_all add: uncounted_by_def start_job_def add.commute)
  moreover have "tame q (uncounted q) (\<lambda>i. F i + count T i)" if "q \<in> set (pl_jobs pl)" for q
    using ok that tame_mono [of q "uncounted q" F] by (simp add: breaker_ok_def)
  ultimately show ?thesis
    using ok T by (auto simp: breaker_ok_def start_job_def)
qed

lemma open_frame:
  "b_circuit_open (lb_backends (update_backend j (\<lambda>b. b\<lparr>b_failures := f b\<rparr>) lb) ! i) =
     b_circuit_open (lb_backends lb ! i)"
  "b_circuit_open (lb_backends (update_backend j (\<lambda>b. b\<lparr>b_last_failure := u\<rparr>) lb) ! i) =
     b_circuit_open (lb_backends lb ! i)"
  "b_circuit_open (lb_backends (update_backend j acquire lb) ! i) = b_circuit_open (lb_backends lb ! i)"
  "b_circuit_open (lb_backends (update_backend j release lb) ! i) = b_circuit_open (lb_backends lb ! i)"
  "b_failures (lb_backends (update_backend j (\<lambda>b. b\<lparr>b_circuit_open := v\<rparr>) lb) ! i) =
     b_failures (lb_backends lb ! i)"
  "b_failures (lb_backends (update_backend j (\<lambda>b. b\<lparr>b_last_failure := u\<rparr>) lb) ! i) =
     b_failures (lb_backends lb ! i)"
  "b_failures (lb_backends (update_backend j acquire lb) ! i) = b_failures (lb_backends lb ! i)"
  "b_failures (lb_backends (update_backend j release lb) ! i) = b_failures (lb_backends lb ! i)"
  by (cases "j < length (lb_backends lb)"; cases "i = j";
      simp add: update_backend_def acquire_def release_def list_update_beyond)+

lemma access_breaker:
  assumes t: "tame p T F" and i: "i < length (lb_backends lb)"
    and T: "set_mset T \<subseteq> {..<length (lb_backends lb)}"
    and cnt: "\<And>i. i < length (lb_backends lb) \<Longrightarrow> unat (b_failures (lb_backends lb ! i)) + (count R i + count T i) \<le> F i"
    and opn: "b_circuit_open (lb_backends lb ! i) \<Longrightarrow> 5 \<le> F i"
  shows "\<exists>T'. tame (fst (access t0 p lb)) T' F \<and> T' \<subseteq># T \<and>
    unat (b_failures (lb_backends (snd (access t0 p lb)) ! i)) + (count R i + count T' i) \<le> F i \<and>
    (b_circuit_open (lb_backends (snd (access t0 p lb)) ! i) \<longrightarrow> 5 \<le> F i)"
proof (cases p)
  case (FetchAddFailures j k)
  let ?x = "b_failures (lb_backends lb ! j)"
  have j: "j \<in># T" "tame (k ?x) (T - {#j#}) (F(j := max (F j) (Suc (unat ?x))))"
    using t FetchAddFailures by simp_all
  then have "j < length (lb_backends lb)" using T by auto
  then have "unat ?x + (count R j + count T j) \<le> F j" by (rule cnt)
  moreover obtain c where "count T j = Suc c" using j(1) by (metis count_eq_zero_iff not0_implies_Suc)
  ultimately have x: "Suc (unat ?x) \<le> F j" "unat ?x + (count R j + count (T - {#j#}) j) < F j"
    by simp_all
  then have "F(j := max (F j) (Suc (unat ?x))) = F" by (simp add: max_absorb1)
  then have "tame (k ?x) (T - {#j#}) F" using j(2) by simp
  moreover have "unat (?x + 1) \<le> Suc (unat ?x)" by (simp add: unat_word_ariths)
  ultimately show ?thesis
    using FetchAddFailures cnt [OF i] opn x(2) i
    by (intro exI [of _ "T - {#j#}"]) (cases "i = j"; simp add: open_frame)
next
  case (StoreOpen j v q)
  then show ?thesis
    using t cnt [OF i] opn i by (intro exI [of _ T]) (cases "i = j"; simp add: open_frame)
next
  case (StoreFailures j v q)
  then show ?thesis
    using t cnt [OF i] opn i by (intro exI [of _ T]) (cases "i = j"; simp add: open_frame)
qed (use t cnt [OF i] opn in \<open>auto simp: open_frame intro!: exI [of _ T]\<close>)


lemma tame_access: "tame p {#} F \<Longrightarrow> tame (fst (access t p lb)) {#} F"
  by (cases p) simp_all

lemma work_breaker:
  assumes ok: "breaker_ok urls F pl"
  shows "breaker_ok urls F (pool_step pl (Work j t))"
proof (cases "j < length (pl_jobs pl)")
  case True
  let ?p = "pl_jobs pl ! j"
  let ?n = "length (lb_backends (pl_lb pl))"
  obtain p lb where acc: "access t ?p (pl_lb pl) = (p, lb)" by fastforce
  obtain R where R: "uncounted_by pl = R + uncounted ?p"
    "\<And>p. sum_list (map uncounted ((pl_jobs pl)[j := p])) = R + uncounted p"
    unfolding uncounted_by_def by (rule sum_map_split [OF True, where g = uncounted]) blast
  have urls: "lb_urls (pl_lb pl) = urls" "length urls = ?n" using ok by (auto simp: breaker_ok_def lb_urls_def)
  have pre: "tame ?p (uncounted ?p) F" "set_mset (uncounted ?p) \<subseteq> {..<?n}"
    "\<And>i. i < ?n \<Longrightarrow> unat (b_failures (lb_backends (pl_lb pl) ! i)) + (count R i + count (uncounted ?p) i) \<le> F i"
    "\<And>i. i < ?n \<Longrightarrow> b_circuit_open (lb_backends (pl_lb pl) ! i) \<Longrightarrow> 5 \<le> F i"
    using ok True urls(2) by (auto simp: breaker_ok_def R(1))
  have step: "tame p (uncounted p) F \<and> uncounted p \<subseteq># uncounted ?p \<and>
      unat (b_failures (lb_backends lb ! i)) + (count R i + count (uncounted p) i) \<le> F i \<and>
      (b_circuit_open (lb_backends lb ! i) \<longrightarrow> 5 \<le> F i)" if "i < ?n" for i
  proof -
    note acc_i = access_breaker [OF pre(1) that pre(2) pre(3) pre(4) [OF that], of t]
    obtain T' where "tame p T' F" "T' \<subseteq># uncounted ?p"
      "unat (b_failures (lb_backends lb ! i)) + (count R i + count T' i) \<le> F i"
      "b_circuit_open (lb_backends lb ! i) \<longrightarrow> 5 \<le> F i"
      using acc_i acc by auto
    then show ?thesis using tame_uncounted [of p T' F] by simp
  qed
  have tame: "tame p (uncounted p) F \<and> uncounted p \<subseteq># uncounted ?p"
  proof (cases "?n = 0")
    case True
    then have "uncounted ?p = {#}" using pre(2) by simp
    then have "tame p {#} F" using pre(1) acc tame_access [of ?p F t "pl_lb pl"] by simp
    then show ?thesis using tame_uncounted [of p "{#}" F] by simp
  qed (use step [of 0] in simp)
  have "set_mset (R + uncounted p) \<subseteq> {..<length urls}"
    using ok R(1) set_mset_mono [OF conjunct2 [OF tame]] by (auto simp: breaker_ok_def)
  moreover have "lb_urls lb = urls" using access_frame(2) [of t ?p "pl_lb pl"] acc urls(1) by simp
  ultimately show ?thesis
    using ok True acc step tame urls(2)
    by (auto simp: breaker_ok_def uncounted_by_def R(2) add.assoc
        dest!: set_update_subset_insert [THEN subsetD])
qed (use ok in simp)

lemma finish_breaker:
  assumes ok: "breaker_ok urls F pl"
  shows "breaker_ok urls F (pool_step pl (Finish j))"
proof (cases "\<exists>r. j < length (pl_jobs pl) \<and> pl_jobs pl ! j = Ret r")
  case True
  then obtain r where j: "j < length (pl_jobs pl)" and r: "pl_jobs pl ! j = Ret r" by blast
  obtain R where R: "uncounted_by pl = R + uncounted (pl_jobs pl ! j)"
    "\<And>p. sum_list (map uncounted ((pl_jobs pl)[j := p])) = R + uncounted p"
    unfolding uncounted_by_def by (rule sum_map_split [OF j, where g = uncounted]) blast
  have "uncounted_by (pool_step pl (Finish j)) = uncounted_by pl"
    using j r R by (simp add: uncounted_by_def)
  then show ?thesis
    using ok j r by (auto simp: breaker_ok_def dest!: set_update_subset_insert [THEN subsetD])
next
  case False
  then have "pool_step pl (Finish j) = pl" by (auto split: prog.split)
  with ok show ?thesis by simp
qed

text \<open>The backend an event reports a failure for.\<close>

definition report :: "string list \<Rightarrow> pool_event \<Rightarrow> nat multiset" where
  "report urls e = (case e of StartFailure url \<Rightarrow> target urls url | _ \<Rightarrow> {#})"

lemma pool_step_breaker:
  assumes ok: "breaker_ok urls F pl"
  shows "breaker_ok urls (\<lambda>i. F i + count (report urls e) i) (pool_step pl e)"
proof (cases e)
  case (StartFailure url)
  have "set_mset (target urls url) \<subseteq> {..<length urls}"
    by (auto simp: target_def guard_of_def find_url_less split: option.splits)
  from start_job_breaker [OF ok tame_failure this, where G = "pl_guards pl"] ok StartFailure show ?thesis
    by (simp add: report_def breaker_ok_def)
next
  case (StartSelect ip)
  with start_job_breaker [OF ok tame_select, where G = "pl_guards pl"] show ?thesis by (simp add: report_def)
next
  case (StartDrop i)
  with start_job_breaker [OF ok tame_other(1), where G = "pl_guards pl - {#i#}"] ok show ?thesis
    by (simp add: report_def)
next
  case (StartSuccess url)
  with start_job_breaker [OF ok tame_other(2), where G = "pl_guards pl"] show ?thesis by (simp add: report_def)
next
  case (Work j t)
  with work_breaker [OF ok] show ?thesis by (simp add: report_def)
next
  case (Finish j)
  with finish_breaker [OF ok] show ?thesis by (simp add: report_def)
qed

definition reports_for :: "string list \<Rightarrow> nat \<Rightarrow> pool_event list \<Rightarrow> nat" where
  "reports_for urls i es = (\<Sum>e \<leftarrow> es. count (report urls e) i)"

lemma pool_run_breaker:
  "breaker_ok urls F pl \<Longrightarrow> breaker_ok urls (\<lambda>i. F i + reports_for urls i es) (pool_run pl es)"
proof (induction es arbitrary: F pl)
  case (Cons e es)
  from Cons.IH [OF pool_step_breaker [OF Cons.prems, of e]] show ?case
    by (simp add: reports_for_def add.assoc)
qed (simp add: reports_for_def)

text \<open>
  C8: However the operations interleave, a circuit is open only if at least five failures were
  reported for its backend.
\<close>

theorem open_needs_five_reports:
  assumes "i < length (dc_backends cfg)"
    and "b_circuit_open (lb_backends (pl_lb (pool_run (pool_new cfg) es)) ! i)"
  shows "5 \<le> reports_for (dc_backends cfg) i es"
proof -
  have "breaker_ok (dc_backends cfg) (\<lambda>_. 0) (pool_new cfg)"
    by (simp add: breaker_ok_def pool_new_def load_balancer_new_def backend_new_def lb_urls_def uncounted_by_def
        comp_def)
  from pool_run_breaker [OF this, of es] assms show ?thesis by (simp add: breaker_ok_def)
qed


lemmas report_eval = failure_prog_def record_failure_prog_def success_prog_def record_success_prog_def
  lb_urls_def CB_THRESHOLD_def

definition full_report :: "nat \<Rightarrow> pool_event list" where
  "full_report j = [StartFailure ''u'', Work j 9, Work j 9, Work j 9, Work j 9]"

definition one_backend_pool :: "backend \<Rightarrow> nat \<Rightarrow> pool" where
  "one_backend_pool b k =
     \<lparr>pl_lb = \<lparr>lb_backends = [b], lb_strategy = IpHash, lb_cursor = 0\<rparr>, pl_jobs = replicate k (Ret None),
      pl_guards = {#}\<rparr>"

lemma full_report_run:
  assumes "b_url b = ''u''"
  shows "pool_run (one_backend_pool b k) (full_report k) = one_backend_pool (record_failure 9 b) (Suc k)"
  using assms
  by (simp add: one_backend_pool_def full_report_def start_job_def void_def report_eval update_backend_def
      record_failure_def Let_def nth_append list_update_append replicate_append_same [symmetric])

definition five_reports :: "pool_event list" where
  "five_reports = concat (map full_report [0..<5])"

theorem open_needs_five_reports_witness:
  "b_circuit_open (lb_backends (pl_lb (pool_run (pool_new sticky_domain) five_reports)) ! 0) \<and>
   5 \<le> reports_for (dc_backends sticky_domain) 0 five_reports"
proof -
  have new: "pool_new sticky_domain = one_backend_pool (backend_new ''u'') 0"
    by (simp add: pool_new_def sticky_domain_def load_balancer_new_def one_backend_pool_def)
  have "b_circuit_open (lb_backends (pl_lb (pool_run (pool_new sticky_domain) five_reports)) ! 0)"
    unfolding new five_reports_def
    by (simp add: numeral_eq_Suc pool_run_append full_report_run step_simps backend_new_def)
      (simp add: one_backend_pool_def step_simps CB_THRESHOLD_def)
  moreover have "0 < length (dc_backends sticky_domain)" by (simp add: sticky_domain_def)
  ultimately show ?thesis using open_needs_five_reports by blast
qed

section \<open>Reports are not atomic\<close>

text \<open>Two jobs on a balancer with one backend.\<close>

definition duel :: "backend \<Rightarrow> nat option prog \<Rightarrow> nat option prog \<Rightarrow> pool" where
  "duel b p q =
     \<lparr>pl_lb = \<lparr>lb_backends = [b], lb_strategy = IpHash, lb_cursor = 0\<rparr>, pl_jobs = [p, q], pl_guards = {#}\<rparr>"

text \<open>
  C24: A report is several accesses and can be undone half-way. When an answered request reports
  its success while a health check reports the fifth failure in a row, the circuit can end open
  with a failure count of zero: a state that neither order of the two reports leads to, and that no
  sequence of outcomes does.
\<close>

theorem success_lost_in_race:
  assumes "\<not> b_circuit_open b" and "b_failures b = 4" and "b_url b = url"
  shows "\<exists>es b'. pool_run (duel b (void (success_prog [url] url)) (void (failure_prog [url] url))) es =
      duel b' (Ret None) (Ret None) \<and> b_circuit_open b' \<and> b_failures b' = 0 \<and>
      \<not> b_circuit_open (record_success (record_failure now b)) \<and>
      \<not> b_circuit_open (record_failure now (record_success b))"
proof -
  let ?es = "[Work 1 now, Work 0 now, Work 0 now, Work 1 now, Work 1 now, Work 1 now]"
  let ?b = "b\<lparr>b_failures := 0, b_last_failure := now, b_circuit_open := True\<rparr>"
  have "pool_run (duel b (void (success_prog [url] url)) (void (failure_prog [url] url))) ?es =
      duel ?b (Ret None) (Ret None)"
    using assms by (simp add: duel_def void_def report_eval update_backend_def)
  moreover have "\<not> b_circuit_open (record_success (record_failure now b))"
    and "\<not> b_circuit_open (record_failure now (record_success b))"
    by (simp_all add: step_simps CB_THRESHOLD_def word_le_nat_alt assms(1))
  moreover have "b_circuit_open ?b" "b_failures ?b = 0" by simp_all
  ultimately show ?thesis by blast
qed

theorem success_lost_in_race_witness:
  "\<exists>es b'. pool_run (duel ((backend_new ''u'')\<lparr>b_failures := 4\<rparr>) (void (success_prog [''u''] ''u''))
      (void (failure_prog [''u''] ''u''))) es = duel b' (Ret None) (Ret None) \<and>
    b_circuit_open b' \<and> b_failures b' = 0"
  using success_lost_in_race [of "(backend_new ''u'')\<lparr>b_failures := 4\<rparr>" "''u''" 9]
  by (fastforce simp: backend_new_def)

text \<open>
  In the same way a probe that resets an expired circuit can wipe out a failure reported meanwhile:
  the backend is selected with a failure count of zero. After the report no selection would have
  picked it, and after the selection the report would have counted.
\<close>

theorem failure_lost_in_race:
  assumes "b_circuit_open b" and "30 \<le> now - b_last_failure b" and "5 \<le> b_failures b + 1"
    and "b_url b = url"
  shows "\<exists>es b'. pool_run (duel b (select_prog IpHash 1 None) (void (failure_prog [url] url))) es =
      duel b' (Ret (Some 0)) (Ret None) \<and> \<not> b_circuit_open b' \<and> b_failures b' = 0 \<and>
      \<not> healthy_at now (record_failure now b) \<and>
      b_failures (record_failure now (snd (is_healthy now b))) = 1"
proof -
  let ?es = "replicate 3 (Work 0 now) @ replicate 4 (Work 1 now) @ replicate 3 (Work 0 now)"
  let ?b = "b\<lparr>b_failures := 0, b_last_failure := now, b_circuit_open := False, b_active := b_active b + 1\<rparr>"
  have "pool_run (duel b (select_prog IpHash 1 None) (void (failure_prog [url] url))) ?es =
      duel ?b (Ret (Some 0)) (Ret None)"
    using assms
    by (simp add: duel_def void_def report_eval update_backend_def select_prog_def pick_prog_def
        is_healthy_prog_def hash_of_def acquire_def CB_RESET_SECS_def numeral_eq_Suc)
  moreover have "\<not> healthy_at now (record_failure now b)"
    using assms(1) by (simp add: healthy_at_def step_simps CB_RESET_SECS_def)
  moreover have "b_failures (record_failure now (snd (is_healthy now b))) = 1"
    using assms(1,2) by (simp add: is_healthy_def CB_RESET_SECS_def step_simps Let_def)
  ultimately show ?thesis by (intro exI [of _ ?es] exI [of _ ?b]) simp
qed

end
