(* ===== verification/HealthCheck.thy ===== *)
theory HealthCheck
  imports BalancerProps
begin

text \<open>
  The health checker \<^verbatim>\<open>src/src/health_check.rs\<close>: which domains get a task, the URL a task probes,
  the hand-written HTTP request and the reading of its status line, and the feedback of a round
  of probes to the load balancer. The network is an argument: what a peer does when it is sent a
  request, and how long that takes.
\<close>

section \<open>One probe\<close>

datatype peer = ConnectFails | WriteFails | ReadFails | Replies string

record network =
  net_peer :: "string \<Rightarrow> string \<Rightarrow> peer"
  net_millis :: "string \<Rightarrow> string \<Rightarrow> nat"

datatype get_error = OnlyHttp | IoError

definition crlf :: string where "crlf = [CHR 0x0D, newline]"

definition check_url :: "string \<Rightarrow> string \<Rightarrow> string" where
  "check_url backend_url path =
     trim_end_matches (CHR ''/'') backend_url
     @ (if starts_with path ''/'' then path else ''/'' @ path)"

definition get_request :: "string \<Rightarrow> string \<Rightarrow> string" where
  "get_request path host =
     ''GET '' @ path @ '' HTTP/1.0'' @ crlf @ ''Host: '' @ host @ crlf
     @ ''User-Agent: curf-healthcheck/0.1'' @ crlf @ ''Connection: close'' @ crlf @ crlf"

text \<open>The number after the first word of what was read; 0 when there is none.\<close>

definition parse_status :: "string \<Rightarrow> u16" where
  "parse_status buf =
     (let response = (case from_utf8 buf of Some s \<Rightarrow> s | None \<Rightarrow> [])
      in case Option.bind (nth_opt (split_whitespace response) 1) parse_u16 of
           Some s \<Rightarrow> s
         | None \<Rightarrow> 0)"

text \<open>
  The parts of the URL \<^verbatim>\<open>do_get\<close> reads: the text up to the first slash, split at its last colon.
\<close>

definition url_target :: "string \<Rightarrow> string \<times> u16 \<times> string" where
  "url_target without_scheme =
     (let (host_port, path) =
            (case find_char (CHR ''/'') without_scheme of
               Some idx \<Rightarrow> (take idx without_scheme, drop idx without_scheme)
             | None \<Rightarrow> (without_scheme, ''/''));
          (host, port) =
            (case rfind_char (CHR '':'') host_port of
               Some idx \<Rightarrow>
                 (take idx host_port,
                  case parse_u16 (drop (idx + 1) host_port) of Some p \<Rightarrow> p | None \<Rightarrow> 80)
             | None \<Rightarrow> (host_port, 80))
      in (host, port, path))"

definition get_addr :: "string \<Rightarrow> u16 \<Rightarrow> string" where
  "get_addr host port = host @ '':'' @ show_nat (unat port)"

text \<open>
  The result and the time it took; a URL with another scheme is an error at once. The buffer has
  256 bytes and is filled by a single read.
\<close>

definition do_get :: "network \<Rightarrow> string \<Rightarrow> (get_error + u16) \<times> nat" where
  "do_get net url =
     (case strip_prefix ''http://'' url of
        None \<Rightarrow> (Inl OnlyHttp, 0)
      | Some without_scheme \<Rightarrow>
          let (host, port, path) = url_target without_scheme;
              addr = get_addr host port;
              request = get_request path host
          in (case net_peer net addr request of
                Replies bytes \<Rightarrow> Inr (parse_status (take 256 bytes))
              | _ \<Rightarrow> Inl IoError,
              net_millis net addr request))"

definition check_backend :: "network \<Rightarrow> string \<Rightarrow> u64 \<Rightarrow> bool" where
  "check_backend net url limit =
     (let (result, millis) = do_get net url
      in if 1000 * unat limit < millis then False
         else (case result of
                 Inr status \<Rightarrow> 200 \<le> status \<and> status < 300
               | Inl e \<Rightarrow> False))"

section \<open>The tasks\<close>

record health_task =
  ht_domain :: string
  ht_backends :: "string list"
  ht_config :: health_check_config

definition start_health_checks :: "(string \<times> domain_config) list \<Rightarrow> health_task list" where
  "start_health_checks domain_configs =
     map (\<lambda>(domain, cfg). \<lparr>ht_domain = domain, ht_backends = dc_backends cfg,
                            ht_config = dc_health_check cfg\<rparr>)
       (filter (\<lambda>(domain, cfg). \<not> (\<not> hc_enabled (dc_health_check cfg) \<or> dc_backends cfg = []))
          domain_configs)"

text \<open>The end of a probe: its outcome is reported, the time of a failure being the clock reading \<open>now\<close>.\<close>

definition report_probe ::
    "network \<Rightarrow> u64 \<Rightarrow> health_check_config \<Rightarrow> string \<Rightarrow> load_balancer \<Rightarrow> load_balancer" where
  "report_probe net now hc backend_url lb =
     (if check_backend net (check_url backend_url (hc_path hc)) (hc_timeout_secs hc)
      then success backend_url lb else failure now backend_url lb)"

text \<open>
  One tick: every backend in turn, the \<open>i\<close>-th probe with the network \<open>nets i\<close> and the clock reading
  \<open>clk i\<close> should it fail.
\<close>

fun health_round ::
    "(nat \<Rightarrow> network) \<Rightarrow> (nat \<Rightarrow> u64) \<Rightarrow> health_check_config \<Rightarrow> nat \<Rightarrow> string list \<Rightarrow> load_balancer
      \<Rightarrow> load_balancer" where
  "health_round nets clk hc i [] lb = lb"
| "health_round nets clk hc i (backend_url # urls) lb =
     health_round nets clk hc (Suc i) urls (report_probe (nets i) (clk i) hc backend_url lb)"

text \<open>\<^verbatim>\<open>None\<close>: the task ends, its domain has no balancer.\<close>

definition health_tick ::
    "(nat \<Rightarrow> network) \<Rightarrow> (nat \<Rightarrow> u64) \<Rightarrow> health_task \<Rightarrow> lb_manager \<Rightarrow> lb_manager option" where
  "health_tick nets clk t m =
     (case lb_get m (ht_domain t) of
        None \<Rightarrow> None
      | Some lb \<Rightarrow>
          Some (m(ht_domain t \<mapsto> health_round nets clk (ht_config t) 0 (ht_backends t) lb)))"

text \<open>
  A task over a sequence of ticks. \<^verbatim>\<open>tokio::time::interval\<close> panics on a zero period: before its first
  probe the task is over, and with the release profile, \<^verbatim>\<open>panic = "abort"\<close>, the whole process.
\<close>

datatype task_end = Panicked | Stopped lb_manager | Ticking lb_manager

fun task_ticks ::
    "health_task \<Rightarrow> ((nat \<Rightarrow> network) \<times> (nat \<Rightarrow> u64)) list \<Rightarrow> lb_manager \<Rightarrow> task_end" where
  "task_ticks t [] m = Ticking m"
| "task_ticks t ((nets, clk) # ts) m =
     (case health_tick nets clk t m of None \<Rightarrow> Stopped m | Some m \<Rightarrow> task_ticks t ts m)"

definition run_task ::
    "health_task \<Rightarrow> ((nat \<Rightarrow> network) \<times> (nat \<Rightarrow> u64)) list \<Rightarrow> lb_manager \<Rightarrow> task_end" where
  "run_task t ticks m =
     (if hc_interval_secs (ht_config t) = 0 then Panicked else task_ticks t ticks m)"

section \<open>Reading a status line\<close>

definition plain_ascii :: "char \<Rightarrow> bool" where
  "plain_ascii c \<longleftrightarrow> (of_char c :: nat) < 128 \<and> \<not> is_ascii_ws c"

lemma ws_len_plain: "plain_ascii c \<Longrightarrow> ws_len (c # s) = None"
  by (auto simp: ws_len_def plain_ascii_def in_range_def split: list.splits)

lemma split_ws_plain:
  "\<forall>c \<in> set w. plain_ascii c \<Longrightarrow> split_ws a (w @ s) = split_ws (rev w @ a) s"
  by (induction w arbitrary: a) (auto simp: ws_len_plain)

lemma ws_len_ascii: "is_ascii_ws c \<Longrightarrow> ws_len (c # s) = Some 1"
  by (simp add: ws_len_def)

lemma split_ws_word:
  assumes "\<forall>c \<in> set w. plain_ascii c" and "w \<noteq> []" and "is_ascii_ws c"
  shows "split_ws [] (w @ c # s) = w # split_ws [] s"
  using assms by (simp add: split_ws_plain ws_len_ascii)

lemma show_nat_plain: "\<forall>c \<in> set (show_nat n). plain_ascii c"
proof
  fix c
  assume "c \<in> set (show_nat n)"
  then obtain d where "d < 10" "c = digit_char d" using show_nat_digits by blast
  then show "plain_ascii c"
    using digit_char_neq [of d "CHR '' ''"]
    by (auto simp: plain_ascii_def is_ascii_ws_def) (auto simp: digit_char_def)
qed

lemma parse_status_line:
  assumes "\<forall>c \<in> set ver. plain_ascii c" and "ver \<noteq> []" and "n \<le> 65535" and "is_ascii_ws c"
    and "utf8_valid (ver @ '' '' @ show_nat n @ c # rest)"
  shows "parse_status (ver @ '' '' @ show_nat n @ c # rest) = of_nat n"
proof -
  have "is_ascii_ws (CHR '' '')" by (simp add: is_ascii_ws_def)
  then have "split_whitespace (ver @ '' '' @ show_nat n @ c # rest) =
      ver # show_nat n # split_ws [] rest"
    using split_ws_word [OF assms(1,2)] split_ws_word [OF show_nat_plain [of n], of c rest] assms(4)
    by (simp add: split_whitespace_def)
  then show ?thesis
    using assms(3,5) by (simp add: parse_status_def from_utf8_def nth_opt_def parse_u16_show_nat)
qed

lemma parse_status_alt:
  "parse_status b =
     (if \<not> utf8_valid b then 0
      else case split_whitespace b of
             w # v # ws \<Rightarrow> (case parse_u16 v of Some n \<Rightarrow> n | None \<Rightarrow> 0)
           | _ \<Rightarrow> 0)"
  by (auto simp: parse_status_def from_utf8_def nth_opt_def split_whitespace_def split: list.splits option.splits)

section \<open>Reading a URL\<close>

lemma slash_notin_show_nat: "CHR ''/'' \<notin> set (show_nat n)" "CHR '':'' \<notin> set (show_nat n)"
  by (auto dest!: show_nat_digits simp: digit_char_neq [symmetric])

lemma take_drop_at [simp]: "take (length a) (a @ b) = a" "drop (length a) (a @ b) = b"
  by simp_all

lemma url_target_split:
  assumes "CHR ''/'' \<notin> set host" and "p \<le> 65535" and "path = CHR ''/'' # path'"
  shows "url_target (host @ '':'' @ show_nat p @ path) = (host, of_nat p, path)"
proof -
  have "find_char (CHR ''/'') ((host @ '':'' @ show_nat p) @ CHR ''/'' # path') =
      Some (length (host @ '':'' @ show_nat p))"
    using assms(1) slash_notin_show_nat by (intro find_char_append) auto
  moreover have "rfind_char (CHR '':'') (host @ CHR '':'' # show_nat p) = Some (length host)"
    using slash_notin_show_nat(2) by (rule rfind_char_append)
  ultimately show ?thesis
    using assms(2,3) by (simp add: url_target_def Let_def parse_u16_show_nat)
qed

lemma trim_slashes:
  assumes "CHR ''/'' \<notin> set s" and "s \<noteq> []"
  shows "trim_end_matches (CHR ''/'') (a @ s @ replicate k (CHR ''/'')) = a @ s"
proof (induction k)
  case 0
  have "last (a @ s) \<noteq> CHR ''/''" using assms by auto (metis last_in_set)
  then show ?case by (simp add: trim_end_matches_id)
next
  case (Suc k)
  have "a @ s @ replicate (Suc k) (CHR ''/'') = (a @ s @ replicate k (CHR ''/'')) @ [CHR ''/'']"
    by (simp add: replicate_append_same)
  with Suc show ?case by (metis trim_end_matches_append)
qed

lemma check_url_backend:
  "check_url (''http://'' @ host @ '':'' @ show_nat p @ replicate k (CHR ''/'')) path =
     ''http://'' @ host @ '':'' @ show_nat p @ (if starts_with path ''/'' then path else ''/'' @ path)"
  using trim_slashes [of "show_nat p" "''http://'' @ host @ '':''" k] slash_notin_show_nat(1) [of p]
  by (simp add: check_url_def)

lemma starts_slash: "starts_with path ''/'' \<longleftrightarrow> (\<exists>r. path = CHR ''/'' # r)"
  by (auto simp: starts_with_def prefix_def)

definition absolute_path :: "string \<Rightarrow> string" where
  "absolute_path path = (if starts_with path ''/'' then path else ''/'' @ path)"

lemma absolute_path_Cons: "\<exists>r. absolute_path path = CHR ''/'' # r"
  by (auto simp: absolute_path_def starts_slash)

lemma do_get_backend:
  assumes "CHR ''/'' \<notin> set host" and "p \<le> 65535"
  shows "do_get net (check_url (''http://'' @ host @ '':'' @ show_nat p @ replicate k (CHR ''/'')) path) =
    (case net_peer net (host @ '':'' @ show_nat p) (get_request (absolute_path path) host) of
       Replies bytes \<Rightarrow> Inr (parse_status (take 256 bytes))
     | _ \<Rightarrow> Inl IoError,
     net_millis net (host @ '':'' @ show_nat p) (get_request (absolute_path path) host))"
proof -
  obtain r where r: "absolute_path path = CHR ''/'' # r" using absolute_path_Cons by blast
  have "check_url (''http://'' @ host @ '':'' @ show_nat p @ replicate k (CHR ''/'')) path =
      ''http://'' @ (host @ '':'' @ show_nat p @ absolute_path path)"
    unfolding check_url_backend absolute_path_def by simp
  moreover have strip: "strip_prefix ''http://'' (''http://'' @ s) = Some s" for s
    by (simp add: strip_prefix_def)
  moreover have "unat (of_nat p :: u16) = p"
    using assms(2) by (simp add: unat_of_nat)
  ultimately show ?thesis
    unfolding do_get_def
    by (simp only: strip option.case url_target_split [OF assms r] Let_def prod.case get_addr_def)
qed

text \<open>
  A probe of a backend \<^verbatim>\<open>http://host:port\<close>, however many slashes end its URL, goes to
  that host and port and asks for the configured path made absolute; a reply in time whose status
  line carries the number \<open>n\<close> counts as healthy exactly for \<open>n\<close> from 200 to 299.
\<close>

theorem probe_judges_status:
  assumes "CHR ''/'' \<notin> set host" and "p \<le> 65535"
    and "net_peer net (host @ '':'' @ show_nat p) (get_request (absolute_path path) host) = Replies bytes"
    and "net_millis net (host @ '':'' @ show_nat p) (get_request (absolute_path path) host)
           \<le> 1000 * unat limit"
    and "take 256 bytes = ver @ '' '' @ show_nat n @ c # rest" and "utf8_valid (take 256 bytes)"
    and "ver \<noteq> []" and "\<forall>c \<in> set ver. plain_ascii c" and "is_ascii_ws c" and "n \<le> 65535"
  shows "check_backend net
      (check_url (''http://'' @ host @ '':'' @ show_nat p @ replicate k (CHR ''/'')) path) limit
    \<longleftrightarrow> 200 \<le> n \<and> n < 300"
proof -
  have "parse_status (take 256 bytes) = of_nat n"
    using parse_status_line [OF assms(8,7,10,9), of rest] assms(5,6) by simp
  then show ?thesis
    unfolding check_backend_def do_get_backend [OF assms(1,2)]
    using assms(3,4,10) by (simp add: word_le_nat_alt word_less_nat_alt unat_of_nat)
qed

definition ok_peer :: network where
  "ok_peer = \<lparr>net_peer = \<lambda>addr req.
       if addr = ''b:8080'' \<and> req = get_request ''/health'' ''b''
       then Replies (''HTTP/1.1 200 OK'' @ crlf) else ConnectFails,
     net_millis = \<lambda>_ _. 3\<rparr>"

theorem probe_judges_status_witness:
  "check_backend ok_peer (check_url ''http://b:8080//'' ''health'') 5"
proof -
  have port: "show_nat 8080 = ''8080''" "show_nat 200 = ''200''"
    by (simp_all add: show_nat.simps digit_char_def char_of_def bit_0)
  have valid: "utf8_valid (''HTTP/1.1 200 OK'' @ crlf)"
    by (simp add: utf8_valid.simps in_range_def crlf_def newline_def)
  have "check_backend ok_peer
      (check_url (''http://'' @ ''b'' @ '':'' @ show_nat 8080 @ replicate 2 (CHR ''/'')) ''health'') 5
    \<longleftrightarrow> 200 \<le> (200 :: nat) \<and> (200 :: nat) < 300"
    by (rule probe_judges_status
          [where bytes = "''HTTP/1.1 200 OK'' @ crlf" and ver = "''HTTP/1.1''" and c = "CHR '' ''"
             and rest = "''OK'' @ crlf"])
      (use valid in \<open>simp_all add: port ok_peer_def absolute_path_def starts_with_def crlf_def
          plain_ascii_def is_ascii_ws_def\<close>)
  then show ?thesis by (simp add: port numeral_2_eq_2)
qed

text \<open>
  C36: A probe counts as healthy only in this way: the URL is plain \<^verbatim>\<open>http://\<close>, the peer
  answers within the time limit, the first 256 bytes of the answer are valid UTF-8 (a multi-byte
  character cut at the end of the buffer spoils them), and their second word is a number from
  200 to 299. Every other outcome is a failure, I/O errors included.
\<close>

theorem probe_healthy_iff:
  "check_backend net url limit \<longleftrightarrow>
    (\<exists>rest host port path bytes.
       url = ''http://'' @ rest \<and> url_target rest = (host, port, path) \<and>
       net_peer net (get_addr host port) (get_request path host) = Replies bytes \<and>
       net_millis net (get_addr host port) (get_request path host) \<le> 1000 * unat limit \<and>
       utf8_valid (take 256 bytes) \<and>
       (\<exists>w ws v status. split_whitespace (take 256 bytes) = w # v # ws \<and>
          parse_u16 v = Some status \<and> 200 \<le> status \<and> status < 300))"
  (is "?L \<longleftrightarrow> ?R")
proof -
  have status: "200 \<le> parse_status b \<and> parse_status b < 300 \<longleftrightarrow>
      utf8_valid b \<and> (\<exists>w ws v status. split_whitespace b = w # v # ws \<and>
        parse_u16 v = Some status \<and> 200 \<le> status \<and> status < 300)" for b
    by (auto simp: parse_status_alt split: option.splits list.splits)
  show ?thesis
  proof (cases "strip_prefix ''http://'' url")
    case None
    then show ?thesis by (auto simp: check_backend_def do_get_def strip_prefix_def)
  next
    case (Some rest)
    then have url: "url = ''http://'' @ r \<longleftrightarrow> r = rest" for r
      by (auto simp: strip_prefix_def prefix_def split: if_splits)
    obtain host port path where t: "url_target rest = (host, port, path)"
      by (cases "url_target rest") auto
    have "check_backend net url limit \<longleftrightarrow>
        (\<exists>bytes. net_peer net (get_addr host port) (get_request path host) = Replies bytes \<and>
          net_millis net (get_addr host port) (get_request path host) \<le> 1000 * unat limit \<and>
          200 \<le> parse_status (take 256 bytes) \<and> parse_status (take 256 bytes) < 300)"
      using t by (auto simp: check_backend_def do_get_def Some Let_def not_less split: peer.splits)
    then show ?thesis unfolding url status using t by simp
  qed
qed

section \<open>Feedback\<close>

text \<open>
  What the checker relies on in the balancer: an outcome reported for a key changes what is known
  of that key in a given way and nothing else. Then after any number of reports each key has seen
  exactly its own outcomes, in order.
\<close>

locale outcome_sink =
  fixes report :: "'o \<Rightarrow> 'u \<Rightarrow> 's \<Rightarrow> 's"
    and view :: "'s \<Rightarrow> 'u \<Rightarrow> 'v option"
    and react :: "'v \<Rightarrow> 'o \<Rightarrow> 'v"
  assumes view_report:
    "view (report x u s) v = (if v = u then map_option (\<lambda>b. react b x) (view s v) else view s v)"
begin

definition report_all :: "('u \<times> 'o) list \<Rightarrow> 's \<Rightarrow> 's" where
  "report_all xs s = foldl (\<lambda>s (u, x). report x u s) s xs"

definition outcomes_of :: "'u \<Rightarrow> ('u \<times> 'o) list \<Rightarrow> 'o list" where
  "outcomes_of u xs = map snd (filter (\<lambda>p. fst p = u) xs)"

lemma report_all_append: "report_all (xs @ ys) s = report_all ys (report_all xs s)"
  by (simp add: report_all_def)

lemma view_report_all:
  "view (report_all xs s) v = map_option (\<lambda>b. foldl react b (outcomes_of v xs)) (view s v)"
proof (induction xs arbitrary: s)
  case (Cons p xs)
  obtain u x where "p = (u, x)" by (cases p)
  then show ?case
    using Cons.IH [of "report x u s"]
    by (simp add: report_all_def outcomes_of_def view_report option.map_comp comp_def)
qed (simp add: report_all_def outcomes_of_def option.map_id0 option.map_ident)

end

definition report_outcome :: "outcome \<Rightarrow> string \<Rightarrow> load_balancer \<Rightarrow> load_balancer" where
  "report_outcome x url lb = (case x of Succeeded \<Rightarrow> success url lb | Failed now \<Rightarrow> failure now url lb)"

definition backend_at :: "load_balancer \<Rightarrow> string \<Rightarrow> backend option" where
  "backend_at lb url = find (\<lambda>b. b_url b = url) (lb_backends lb)"

lemma find_on_url:
  assumes "\<And>b. b_url (f b) = b_url b"
  shows "find (\<lambda>b. b_url b = v) (on_url u f bs) =
    (if v = u then map_option f (find (\<lambda>b. b_url b = v) bs) else find (\<lambda>b. b_url b = v) bs)"
  by (induction bs) (auto simp: assms)

interpretation fb: outcome_sink report_outcome backend_at observe
proof
  fix x u lb v
  show "backend_at (report_outcome x u lb) v =
      (if v = u then map_option (\<lambda>b. observe b x) (backend_at lb v) else backend_at lb v)"
    using find_on_url [of record_success v u "lb_backends lb"]
      find_on_url [of "record_failure t" v u "lb_backends lb" for t]
    by (cases x) (simp_all add: report_outcome_def backend_at_def success_def failure_def step_simps)
qed

text \<open>The outcomes of one tick, and of a run of ticks.\<close>

fun round_outcomes ::
    "(nat \<Rightarrow> network) \<Rightarrow> (nat \<Rightarrow> u64) \<Rightarrow> health_check_config \<Rightarrow> nat \<Rightarrow> string list
      \<Rightarrow> (string \<times> outcome) list" where
  "round_outcomes nets clk hc i [] = []"
| "round_outcomes nets clk hc i (url # urls) =
     (url, if check_backend (nets i) (check_url url (hc_path hc)) (hc_timeout_secs hc)
           then Succeeded else Failed (clk i))
     # round_outcomes nets clk hc (Suc i) urls"

lemma health_round_report:
  "health_round nets clk hc i urls lb = fb.report_all (round_outcomes nets clk hc i urls) lb"
  by (induction urls arbitrary: i lb) (simp_all add: fb.report_all_def report_outcome_def report_probe_def)

definition tick_outcomes ::
    "health_task \<Rightarrow> ((nat \<Rightarrow> network) \<times> (nat \<Rightarrow> u64)) list \<Rightarrow> (string \<times> outcome) list" where
  "tick_outcomes t ticks =
     concat (map (\<lambda>(nets, clk). round_outcomes nets clk (ht_config t) 0 (ht_backends t)) ticks)"

lemma task_ticks_report:
  "lb_get m (ht_domain t) = Some lb \<Longrightarrow>
   \<exists>m'. task_ticks t ticks m = Ticking m' \<and>
     lb_get m' (ht_domain t) = Some (fb.report_all (tick_outcomes t ticks) lb)"
proof (induction ticks arbitrary: m lb)
  case Nil
  then show ?case by (simp add: tick_outcomes_def fb.report_all_def)
next
  case (Cons tick ticks)
  obtain nets clk where tick: "tick = (nets, clk)" by (cases tick)
  let ?lb = "health_round nets clk (ht_config t) 0 (ht_backends t) lb"
  have "tick_outcomes t (tick # ticks) =
      round_outcomes nets clk (ht_config t) 0 (ht_backends t) @ tick_outcomes t ticks"
    by (simp add: tick_outcomes_def tick)
  then have "fb.report_all (tick_outcomes t (tick # ticks)) lb = fb.report_all (tick_outcomes t ticks) ?lb"
    by (simp add: fb.report_all_append health_round_report)
  moreover have "lb_get (m(ht_domain t \<mapsto> ?lb)) (ht_domain t) = Some ?lb" by (simp add: lb_get_def)
  ultimately show ?case
    using Cons.IH [of "m(ht_domain t \<mapsto> ?lb)" ?lb] Cons.prems
    by (simp add: health_tick_def tick del: fun_upd_apply)
qed

lemma run_task_lb:
  assumes "hc_interval_secs (ht_config t) \<noteq> 0" and "lb_get m (ht_domain t) = Some lb"
  obtains m' where "run_task t ticks m = Ticking m'"
    and "lb_get m' (ht_domain t) = Some (fb.report_all (tick_outcomes t ticks) lb)"
  using assms task_ticks_report [OF assms(2), of ticks] by (auto simp: run_task_def)

text \<open>The outcomes of all the probes of one URL, oldest first.\<close>

definition probes_of ::
    "string \<Rightarrow> health_task \<Rightarrow> ((nat \<Rightarrow> network) \<times> (nat \<Rightarrow> u64)) list \<Rightarrow> outcome list" where
  "probes_of url t ticks = fb.outcomes_of url (tick_outcomes t ticks)"

definition task_of :: "string \<times> domain_config \<Rightarrow> health_task" where
  "task_of d = \<lparr>ht_domain = fst d, ht_backends = dc_backends (snd d), ht_config = dc_health_check (snd d)\<rparr>"

lemma backend_at_new:
  "u \<in> set (dc_backends cfg) \<Longrightarrow> backend_at (load_balancer_new cfg) u = Some (backend_new u)"
proof -
  have "u \<in> set us \<Longrightarrow> find (\<lambda>b. b_url b = u) (map backend_new us) = Some (backend_new u)" for us
    by (induction us) (auto simp: backend_new_def)
  then show "u \<in> set (dc_backends cfg) \<Longrightarrow> ?thesis"
    by (simp add: backend_at_def load_balancer_new_def)
qed

lemma run_task_backend:
  assumes "hc_interval_secs (dc_health_check cfg) \<noteq> 0"
    and "lb_get m domain = Some (load_balancer_new cfg)" and "u \<in> set (dc_backends cfg)"
  obtains m' lb where "run_task (task_of (domain, cfg)) ticks m = Ticking m'"
    and "lb_get m' domain = Some lb" and "map b_url (lb_backends lb) = dc_backends cfg"
    and "backend_at lb u = Some (observe_all (backend_new u) (probes_of u (task_of (domain, cfg)) ticks))"
proof -
  let ?t = "task_of (domain, cfg)"
  let ?lb = "fb.report_all (tick_outcomes ?t ticks) (load_balancer_new cfg)"
  obtain m' where m': "run_task ?t ticks m = Ticking m'" "lb_get m' domain = Some ?lb"
    using run_task_lb [of ?t m "load_balancer_new cfg" ticks] assms by (auto simp: task_of_def)
  have "map b_url (lb_backends (fb.report_all xs lb)) = map b_url (lb_backends lb)" for xs lb
    by (induction xs arbitrary: lb)
      (auto simp: fb.report_all_def report_outcome_def feedback_frame split: outcome.splits)
  then have "map b_url (lb_backends ?lb) = dc_backends cfg"
    by (simp add: load_balancer_new_def backend_new_def comp_def)
  moreover have "backend_at ?lb u = Some (observe_all (backend_new u) (probes_of u ?t ticks))"
    by (simp add: fb.view_report_all backend_at_new assms(3) observe_all_def probes_of_def)
  ultimately show thesis using that m' by blast
qed

text \<open>
  A task that has a balancer to itself: from a fresh one, over any run of ticks with no selection and
  no answered request, the task keeps running and the circuit of a backend is open exactly when at
  least the last five probes of it have all failed.
\<close>

theorem lone_task_drives_breaker:
  assumes "hc_interval_secs (dc_health_check cfg) \<noteq> 0"
    and "lb_get m domain = Some (load_balancer_new cfg)" and "u \<in> set (dc_backends cfg)"
  shows "\<exists>m' lb b. run_task (task_of (domain, cfg)) ticks m = Ticking m' \<and>
    lb_get m' domain = Some lb \<and> backend_at lb u = Some b \<and>
    (b_circuit_open b \<longleftrightarrow> 5 \<le> streak (probes_of u (task_of (domain, cfg)) ticks))"
proof -
  obtain m' lb where
    "run_task (task_of (domain, cfg)) ticks m = Ticking m'" "lb_get m' domain = Some lb"
    "backend_at lb u = Some (observe_all (backend_new u) (probes_of u (task_of (domain, cfg)) ticks))"
    by (rule run_task_backend [OF assms])
  then show ?thesis
    using observe_all_state [of "backend_new u" "probes_of u (task_of (domain, cfg)) ticks"]
      threshold_reached [of "streak (probes_of u (task_of (domain, cfg)) ticks)"]
    by (simp add: backend_new_def)
qed

definition one_backend :: domain_config where
  "one_backend =
     \<lparr>dc_backends = [''https://b''], dc_load_balance = RoundRobin, dc_tls = None,
      dc_static_files = None, dc_redirect_to_https = False,
      dc_health_check = health_check_default, dc_headers = []\<rparr>"

lemma https_probe_fails [simp]: "\<not> check_backend net (check_url ''https://b'' path) limit"
  by (simp add: check_backend_def do_get_def check_url_def trim_end_matches_def strip_prefix_def)

lemma one_backend_probes:
  "probes_of ''https://b'' (task_of (d, one_backend)) (replicate n (nets, clk)) =
     replicate n (Failed (clk 0))"
  by (induction n)
    (simp_all add: probes_of_def tick_outcomes_def fb.outcomes_of_def task_of_def one_backend_def)

lemma streak_failures: "streak (replicate n (Failed s)) = n"
  by (simp add: streak_def is_failure_def takeWhile_replicate)

theorem lone_task_drives_breaker_witness:
  "\<exists>m' lb b. run_task (task_of (''d'', one_backend)) (replicate 5 (\<lambda>_. ok_peer, \<lambda>_. 7))
       [''d'' \<mapsto> load_balancer_new one_backend] = Ticking m' \<and>
     lb_get m' ''d'' = Some lb \<and> backend_at lb ''https://b'' = Some b \<and> b_circuit_open b"
  using lone_task_drives_breaker
      [of one_backend "[''d'' \<mapsto> load_balancer_new one_backend]" "''d''" "''https://b''"
          "replicate 5 (\<lambda>_. ok_peer, \<lambda>_. 7)"]
  by (simp add: one_backend_probes streak_failures lb_get_def)
    (simp add: one_backend_def health_check_default_def default_defs)

end
