(* ===== verification/Probing.thy ===== *)
theory Probing
  imports HealthCheck
begin

text \<open>
  Health checks of \<^verbatim>\<open>src/src/health_check.rs\<close> among everything else that happens to a balancer of
  \<^verbatim>\<open>src/src/load_balancer.rs\<close>: any sequence of selections, returned guards, answered requests and
  probes. Each such operation is a few calls on each backend, so that \<open>Breaker\<close> gives the circuit.
\<close>

section \<open>Operations on a balancer\<close>

text \<open>
  What the program does to a balancer: a selection with its clock readings, the end of a guard, the
  feedback of an answered request, and the end of a probe with the network it met and the clock
  reading should it fail.
\<close>

datatype lb_op =
    Selected "nat \<Rightarrow> u64" "ip_addr option"
  | Returned nat
  | Answered string
  | Probed network u64 string

fun op_step :: "health_check_config \<Rightarrow> load_balancer \<Rightarrow> lb_op \<Rightarrow> load_balancer" where
  "op_step hc lb (Selected clk ip) = snd (select clk ip lb)"
| "op_step hc lb (Returned g) = drop_guard g lb"
| "op_step hc lb (Answered url) = success url lb"
| "op_step hc lb (Probed net now url) = report_probe net now hc url lb"

definition ops_run :: "health_check_config \<Rightarrow> load_balancer \<Rightarrow> lb_op list \<Rightarrow> load_balancer" where
  "ops_run hc lb ops = foldl (op_step hc) lb ops"

lemma ops_run_simps [simp]:
  "ops_run hc lb [] = lb" "ops_run hc lb (ops @ [x]) = op_step hc (ops_run hc lb ops) x"
  "ops_run hc lb (x # ops) = ops_run hc (op_step hc lb x) ops"
  by (simp_all add: ops_run_def)

definition probe_ok :: "health_check_config \<Rightarrow> network \<Rightarrow> string \<Rightarrow> bool" where
  "probe_ok hc net url = check_backend net (check_url url (hc_path hc)) (hc_timeout_secs hc)"

lemma report_probe_ok:
  "report_probe net now hc url lb = (if probe_ok hc net url then success url lb else failure now url lb)"
  by (simp add: report_probe_def probe_ok_def)

text \<open>A round of the task is such a sequence.\<close>

lemma health_round_ops:
  "health_round nets clk hc i urls lb =
     ops_run hc lb (map (\<lambda>(j, url). Probed (nets j) (clk j) url) (zip [i..<i + length urls] urls))"
proof (induction urls arbitrary: i lb)
  case (Cons url urls)
  have "[i..<i + length (url # urls)] = i # [Suc i..<Suc i + length urls]" by (simp add: upt_rec)
  with Cons show ?case by simp
qed simp

text \<open>The \<open>i\<close>-th backend of a new balancer after some operations.\<close>

definition backend_after :: "health_check_config \<Rightarrow> domain_config \<Rightarrow> lb_op list \<Rightarrow> nat \<Rightarrow> backend" where
  "backend_after hc cfg ops i = lb_backends (ops_run hc (load_balancer_new cfg) ops) ! i"

lemma shape_op [frame_simps]: "lb_shape (op_step hc lb x) = lb_shape lb"
  by (cases x) (simp_all add: frame_simps report_probe_ok)

lemma shape_ops [frame_simps]: "lb_shape (ops_run hc lb ops) = lb_shape lb"
  by (induction ops arbitrary: lb) (simp_all add: frame_simps)

section \<open>What an operation does to one backend\<close>

text \<open>
  The calls an operation may make on the backend with the URL \<open>u\<close>; \<open>hears\<close>: it is the first one with
  that URL, which feedback finds.
\<close>

definition op_effect ::
    "health_check_config \<Rightarrow> bool \<Rightarrow> string \<Rightarrow> lb_op \<Rightarrow> backend_call list \<Rightarrow> bool" where
  "op_effect hc hears u x cs \<longleftrightarrow>
     (case x of
        Selected clk ip \<Rightarrow> set cs \<subseteq> insert Acquires (range (\<lambda>k. Checks (clk k)))
      | Returned g \<Rightarrow> set cs \<subseteq> {Releases}
      | Answered v \<Rightarrow> cs = (if hears \<and> v = u then [Succeeds] else [])
      | Probed net now v \<Rightarrow>
          cs = (if hears \<and> v = u then [if probe_ok hc net u then Succeeds else Fails now] else []))"

lemma walk_backend:
  "i < length bs \<Longrightarrow>
   \<exists>k. snd (hp.walk clk j js bs) ! i = bs ! i \<or> snd (hp.walk clk j js bs) ! i = snd (is_healthy (clk k) (bs ! i))"
proof (cases "fst (hp.walk clk j js bs)")
  case None
  then show ?thesis by (simp add: hp.walk_None_same)
next
  case (Some n)
  moreover assume "i < length bs"
  moreover obtain k where "snd (hp.walk clk j js bs) = bs[n := snd (is_healthy (clk (j + k)) (bs ! n))]"
    using Some by (rule hp.walk_Some)
  ultimately show ?thesis by (cases "n = i") auto
qed

lemma pick_backend:
  "i < length (lb_backends lb) \<Longrightarrow>
   \<exists>k. lb_backends (snd (pick clk ip lb)) ! i = lb_backends lb ! i \<or>
       lb_backends (snd (pick clk ip lb)) ! i = snd (is_healthy (clk k) (lb_backends lb ! i))"
  using walk_backend [of i "lb_backends lb" clk]
  by (cases "lb_strategy lb") (auto simp: pick_defs rr_loop_walk ih_loop_walk case_prod_beta Let_def lc_loop_backends)

lemma select_calls:
  assumes "i < length (lb_backends lb)"
  shows "\<exists>cs. lb_backends (snd (select clk ip lb)) ! i = calls (lb_backends lb ! i) cs \<and>
    set cs \<subseteq> insert Acquires (range (\<lambda>k. Checks (clk k)))"
proof -
  let ?p = "snd (pick clk ip lb)"
  obtain k where "lb_backends ?p ! i = lb_backends lb ! i \<or>
      lb_backends ?p ! i = snd (is_healthy (clk k) (lb_backends lb ! i))"
    using pick_backend [OF assms] by blast
  then have "\<exists>cs. lb_backends ?p ! i = calls (lb_backends lb ! i) cs \<and> set cs \<subseteq> {Checks (clk k)}"
    by (elim disjE) (auto intro: exI [of _ "[]"] exI [of _ "[Checks (clk k)]"])
  then obtain cs where cs: "lb_backends ?p ! i = calls (lb_backends lb ! i) cs" "set cs \<subseteq> {Checks (clk k)}"
    by blast
  have len: "length (lb_backends ?p) = length (lb_backends lb)" by (simp add: frame_simps)
  show ?thesis
  proof (cases "lb_backends lb \<noteq> [] \<and> fst (pick clk ip lb) = Some i")
    case True
    then have "lb_backends (snd (select clk ip lb)) ! i = call (lb_backends ?p ! i) Acquires"
      using assms len by (simp add: select_pick update_backend_def)
    then show ?thesis using cs by (intro exI [of _ "cs @ [Acquires]"]) auto
  next
    case False
    then have "lb_backends (snd (select clk ip lb)) ! i = lb_backends ?p ! i"
      using assms by (auto simp: select_pick update_backend_def split: option.split)
    then show ?thesis using cs by (intro exI [of _ cs]) auto
  qed
qed

lemma op_calls:
  assumes "i < length (lb_backends lb)" and "u = b_url (lb_backends lb ! i)"
    and "hears \<longleftrightarrow> (\<forall>j < i. b_url (lb_backends lb ! j) \<noteq> u)"
  shows "\<exists>cs. lb_backends (op_step hc lb x) ! i = calls (lb_backends lb ! i) cs \<and> op_effect hc hears u x cs"
proof (cases x)
  case (Selected clk ip)
  with select_calls [OF assms(1), of clk ip] show ?thesis by (simp add: op_effect_def)
next
  case (Returned g)
  have "lb_backends (drop_guard g lb) ! i =
      calls (lb_backends lb ! i) (if g = i then [Releases] else [])"
    using assms(1) by (simp add: drop_guard_def update_backend_def)
  with Returned show ?thesis by (intro exI [of _ "if g = i then [Releases] else []"]) (auto simp: op_effect_def)
next
  case (Answered v)
  then show ?thesis
    using assms by (auto simp: op_effect_def success_def nth_on_url)
next
  case (Probed net now v)
  then show ?thesis
    using assms by (auto simp: op_effect_def success_def failure_def nth_on_url report_probe_ok)
qed

text \<open>\<open>heard urls i\<close>: no earlier backend has the URL of the \<open>i\<close>-th.\<close>

definition heard :: "string list \<Rightarrow> nat \<Rightarrow> bool" where
  "heard urls i \<longleftrightarrow> i < length urls \<and> (\<forall>j < i. urls ! j \<noteq> urls ! i)"

lemma new_urls: "lb_urls (load_balancer_new cfg) = dc_backends cfg"
  by (simp add: lb_urls_def load_balancer_new_def backend_new_def comp_def)

lemma ops_urls: "lb_urls (ops_run hc (load_balancer_new cfg) ops) = dc_backends cfg"
  using shape_ops [of hc "load_balancer_new cfg" ops] by (simp add: lb_shape_def new_urls)

lemma ops_urls_nth:
  assumes "i < length (dc_backends cfg)"
  shows "b_url (lb_backends (ops_run hc (load_balancer_new cfg) ops) ! i) = dc_backends cfg ! i"
    and "length (lb_backends (ops_run hc (load_balancer_new cfg) ops)) = length (dc_backends cfg)"
  using ops_urls [of hc cfg ops] assms by (metis lb_urls_def length_map nth_map)+

lemma history:
  assumes "i < length (dc_backends cfg)"
  shows "\<exists>css. lb_backends (ops_run hc (load_balancer_new cfg) ops) ! i =
      calls (backend_new (dc_backends cfg ! i)) (concat css) \<and>
    list_all2 (op_effect hc (heard (dc_backends cfg) i) (dc_backends cfg ! i)) ops css"
proof (induction ops rule: rev_induct)
  case Nil
  then show ?case using assms by (simp add: load_balancer_new_def)
next
  case (snoc x ops)
  let ?lb = "ops_run hc (load_balancer_new cfg) ops"
  obtain css where css: "lb_backends ?lb ! i = calls (backend_new (dc_backends cfg ! i)) (concat css)"
    "list_all2 (op_effect hc (heard (dc_backends cfg) i) (dc_backends cfg ! i)) ops css"
    using snoc by blast
  have "heard (dc_backends cfg) i \<longleftrightarrow> (\<forall>j < i. b_url (lb_backends ?lb ! j) \<noteq> dc_backends cfg ! i)"
    using assms by (auto simp: heard_def ops_urls_nth)
  with op_calls [of i ?lb "dc_backends cfg ! i" "heard (dc_backends cfg) i" hc x]
  obtain cs where "lb_backends (op_step hc ?lb x) ! i = calls (lb_backends ?lb ! i) cs"
    "op_effect hc (heard (dc_backends cfg) i) (dc_backends cfg ! i) x cs"
    using assms by (auto simp: ops_urls_nth)
  with css show ?case
    by (intro exI [of _ "css @ [cs]"]) (simp add: list_all2_appendI)
qed

section \<open>Probes and the circuit\<close>

text \<open>The verdicts of the probes of a URL, oldest first, and the length of the last run of failures.\<close>

fun verdicts :: "health_check_config \<Rightarrow> string \<Rightarrow> lb_op list \<Rightarrow> bool list" where
  "verdicts hc u [] = []"
| "verdicts hc u (Probed net now v # ops) = (if v = u then [probe_ok hc net u] else []) @ verdicts hc u ops"
| "verdicts hc u (Selected clk ip # ops) = verdicts hc u ops"
| "verdicts hc u (Returned g # ops) = verdicts hc u ops"
| "verdicts hc u (Answered v # ops) = verdicts hc u ops"

definition failing :: "bool list \<Rightarrow> nat" where
  "failing vs = length (takeWhile Not (rev vs))"

lemma verdicts_append [simp]: "verdicts hc u (xs @ ys) = verdicts hc u xs @ verdicts hc u ys"
  by (induction xs rule: verdicts.induct) auto

lemma failing_simps [simp]: "failing [] = 0" "failing (vs @ [v]) = (if v then 0 else Suc (failing vs))"
  by (simp_all add: failing_def)

text \<open>Selections and guards only ever clear the failures that count.\<close>

lemma quiet_calls:
  "\<forall>c \<in> set cs. c \<noteq> Succeeds \<and> (\<forall>t. c \<noteq> Fails t) \<Longrightarrow> foldl count_call ts cs = ts \<or> foldl count_call ts cs = []"
proof (induction cs arbitrary: ts)
  case (Cons c cs)
  then have "count_call ts c = ts \<or> count_call ts c = []" by (cases c) auto
  with Cons.IH [of "count_call ts c"] Cons.IH [of "[]"] Cons.prems show ?case by auto
qed simp

lemma effect_quiet:
  "op_effect hc hears u x cs \<Longrightarrow> (\<And>net now v. x = Probed net now v \<Longrightarrow> \<not> hears \<or> v \<noteq> u) \<Longrightarrow>
   (\<And>v. x = Answered v \<Longrightarrow> \<not> hears \<or> v \<noteq> u) \<Longrightarrow> foldl count_call ts cs = ts \<or> foldl count_call ts cs = []"
  by (rule quiet_calls, cases x) (auto simp: op_effect_def)

lemma effect_counts:
  assumes "op_effect hc True u x cs" and "length ts \<le> failing vs"
  shows "length (foldl count_call ts cs) \<le> failing (vs @ verdicts hc u [x])"
  using effect_quiet [OF assms(1), of ts] assms by (cases x) (auto simp: op_effect_def split: if_splits)

lemma history_counts:
  "list_all2 (op_effect hc True u) ops css \<Longrightarrow> length (counted (concat css)) \<le> failing (verdicts hc u ops)"
proof (induction ops arbitrary: css rule: rev_induct)
  case (snoc x ops)
  then obtain ds cs where css: "css = ds @ [cs]" "list_all2 (op_effect hc True u) ops ds" "op_effect hc True u x cs"
    by (auto simp: list_all2_append1 list_all2_Cons1)
  with effect_counts [OF css(3) snoc.IH [OF css(2)]] show ?case by simp
qed simp

lemma deaf_counts:
  "list_all2 (op_effect hc False u) ops css \<Longrightarrow> counted (concat css) = []"
proof (induction ops arbitrary: css rule: rev_induct)
  case (snoc x ops)
  then obtain ds cs where css: "css = ds @ [cs]" "list_all2 (op_effect hc False u) ops ds" "op_effect hc False u x cs"
    by (auto simp: list_all2_append1 list_all2_Cons1)
  have "foldl count_call [] cs = []" using effect_quiet [OF css(3), of "[]"] by simp
  with snoc.IH [OF css(2)] css(1) show ?case by simp
qed simp

text \<open>
  From a failed probe of \<open>u\<close> at the reading \<open>s\<close> on, nothing resets the circuit: every probe of \<open>u\<close>
  fails, no request to it is answered, and every selection reads the clock less than 30 seconds
  after the latest of the probes.
\<close>

fun outage :: "health_check_config \<Rightarrow> string \<Rightarrow> u64 \<Rightarrow> lb_op list \<Rightarrow> bool" where
  "outage hc u s [] = True"
| "outage hc u s (Selected clk ip # ops) = ((\<forall>k. clk k - s < 30) \<and> outage hc u s ops)"
| "outage hc u s (Returned g # ops) = outage hc u s ops"
| "outage hc u s (Answered v # ops) = (v \<noteq> u \<and> outage hc u s ops)"
| "outage hc u s (Probed net now v # ops) =
     (if v = u then \<not> probe_ok hc net u \<and> outage hc u now ops else outage hc u s ops)"

fun latest :: "string \<Rightarrow> u64 \<Rightarrow> lb_op list \<Rightarrow> u64" where
  "latest u s [] = s"
| "latest u s (Probed net now v # ops) = latest u (if v = u then now else s) ops"
| "latest u s (Selected clk ip # ops) = latest u s ops"
| "latest u s (Returned g # ops) = latest u s ops"
| "latest u s (Answered v # ops) = latest u s ops"

lemma outage_append [simp]: "outage hc u s (xs @ ys) \<longleftrightarrow> outage hc u s xs \<and> outage hc u (latest u s xs) ys"
  by (induction u s xs rule: latest.induct) auto

lemma early_checks:
  "\<forall>c \<in> set cs. c \<in> {Acquires, Releases} \<or> (\<exists>t. c = Checks t \<and> t - last ts < 30) \<Longrightarrow>
   foldl count_call ts cs = ts"
proof (induction cs)
  case (Cons c cs)
  then have "count_call ts c = ts" by (auto simp: not_le)
  with Cons show ?case by simp
qed simp

lemma outage_counts:
  assumes "list_all2 (op_effect hc True u) ops css" and "outage hc u s ops" and "ts \<noteq> []" and "last ts = s"
  shows "length (foldl count_call ts (concat css)) = length ts + length (verdicts hc u ops) \<and>
    foldl count_call ts (concat css) \<noteq> [] \<and> last (foldl count_call ts (concat css)) = latest u s ops"
  using assms
proof (induction ops arbitrary: css s ts)
  case (Cons x ops)
  then obtain cs ds where css: "css = cs # ds" "op_effect hc True u x cs" "list_all2 (op_effect hc True u) ops ds"
    by (auto simp: list_all2_Cons1)
  show ?case
  proof (cases x)
    case (Selected clk ip)
    then have "foldl count_call ts cs = ts"
      using css(2) Cons.prems(2,4) by (intro early_checks) (auto simp: op_effect_def)
    with Cons.IH [OF css(3), of s ts] Cons.prems Selected css(1) show ?thesis by simp
  next
    case (Returned g)
    then have "foldl count_call ts cs = ts"
      using css(2) by (intro early_checks) (auto simp: op_effect_def)
    with Cons.IH [OF css(3), of s ts] Cons.prems Returned css(1) show ?thesis by simp
  next
    case (Answered v)
    with Cons.IH [OF css(3), of s ts] Cons.prems css show ?thesis by (simp add: op_effect_def)
  next
    case (Probed net now v)
    show ?thesis
    proof (cases "v = u")
      case True
      with Cons.IH [OF css(3), of now "ts @ [now]"] Cons.prems css Probed show ?thesis
        by (simp add: op_effect_def)
    next
      case False
      with Cons.IH [OF css(3), of s ts] Cons.prems css Probed show ?thesis by (simp add: op_effect_def)
    qed
  qed
qed simp

text \<open>A backend that has failed five probes in a row, in a history as above.\<close>

lemma outage_opens:
  assumes "heard (dc_backends cfg) i" and "\<not> probe_ok hc net (dc_backends cfg ! i)"
    and "outage hc (dc_backends cfg ! i) s post" and "4 \<le> length (verdicts hc (dc_backends cfg ! i) post)"
  shows "b_circuit_open
      (lb_backends (ops_run hc (load_balancer_new cfg) (pre @ Probed net s (dc_backends cfg ! i) # post)) ! i) \<and>
    b_last_failure
      (lb_backends (ops_run hc (load_balancer_new cfg) (pre @ Probed net s (dc_backends cfg ! i) # post)) ! i)
      = latest (dc_backends cfg ! i) s post"
proof -
  let ?u = "dc_backends cfg ! i"
  have i: "i < length (dc_backends cfg)" using assms(1) by (simp add: heard_def)
  obtain css where b: "lb_backends (ops_run hc (load_balancer_new cfg) (pre @ Probed net s ?u # post)) ! i =
      calls (backend_new ?u) (concat css)"
    and css: "list_all2 (op_effect hc True ?u) (pre @ Probed net s ?u # post) css"
    using history [OF i, of hc "pre @ Probed net s ?u # post"] assms(1) by auto
  then obtain xs ys where split: "css = xs @ [Fails s] # ys" "list_all2 (op_effect hc True ?u) post ys"
    using assms(2) by (auto simp: list_all2_append1 list_all2_Cons1 op_effect_def)
  let ?ts = "counted (concat xs) @ [s]"
  have "counted (concat css) = foldl count_call ?ts (concat ys)" by (simp add: split(1))
  with outage_counts [OF split(2) assms(3), of ?ts] assms(4)
  have "5 \<le> length (counted (concat css))" "counted (concat css) \<noteq> []"
    "last (counted (concat css)) = latest ?u s post" by simp_all
  then show ?thesis
    using calls_state [of "backend_new ?u" "concat css"] unfolding b by (simp add: backend_new_def)
qed

text \<open>An open circuit has seen five failed probes in a row.\<close>

lemma open_circuit_history:
  assumes "i < length (dc_backends cfg)" and "b_circuit_open (backend_after hc cfg ops i)"
  shows "heard (dc_backends cfg) i \<and> 5 \<le> failing (verdicts hc (dc_backends cfg ! i) ops)"
proof -
  let ?u = "dc_backends cfg ! i"
  obtain css where b: "backend_after hc cfg ops i = calls (backend_new ?u) (concat css)"
    and css: "list_all2 (op_effect hc (heard (dc_backends cfg) i) ?u) ops css"
    using history [OF assms(1), of hc ops] by (auto simp: backend_after_def)
  have five: "5 \<le> length (counted (concat css))"
    using assms(2) calls_state [of "backend_new ?u" "concat css"] by (simp add: b backend_new_def)
  have "heard (dc_backends cfg) i"
  proof (rule ccontr)
    assume "\<not> heard (dc_backends cfg) i"
    then show False using deaf_counts [of hc ?u ops css] css five by simp
  qed
  with five history_counts [of hc ?u ops css] css show ?thesis by simp
qed

text \<open>
  C10: Health checks drive the circuit breaker, whatever else happens to the balancer (selections with
  any clock readings, guards, answered requests, probes of other backends). A circuit is open only if
  the last five probes of the backend have all failed. And it is open once a failed probe is followed
  by four more, if from the first on all its probes fail, no request to it is answered, and no
  selection reads the clock 30 seconds or more after the latest probe (the default interval is 15).
  Of several backends with one URL only the first hears of probes, the others never open.
\<close>

theorem health_checks_drive_breaker:
  assumes "i < length (dc_backends cfg)"
  shows "(b_circuit_open (backend_after hc cfg ops i) \<longrightarrow>
      heard (dc_backends cfg) i \<and> 5 \<le> failing (verdicts hc (dc_backends cfg ! i) ops)) \<and>
    (heard (dc_backends cfg) i \<longrightarrow> \<not> probe_ok hc net (dc_backends cfg ! i) \<longrightarrow>
       outage hc (dc_backends cfg ! i) s post \<longrightarrow> 4 \<le> length (verdicts hc (dc_backends cfg ! i) post) \<longrightarrow>
       b_circuit_open (backend_after hc cfg (pre @ Probed net s (dc_backends cfg ! i) # post) i))"
  using open_circuit_history [OF assms, of hc ops] outage_opens [of cfg i hc net s post pre]
  by (simp add: backend_after_def)

lemma https_never_ok [simp]: "\<not> probe_ok hc net ''https://b''"
  by (simp add: probe_ok_def)

definition demo_post :: "lb_op list" where
  "demo_post =
     [Selected (\<lambda>_. 20) None, Probed ok_peer 22 ''https://b'', Probed ok_peer 37 ''https://b'', Returned 0,
      Probed ok_peer 52 ''https://b'', Selected (\<lambda>_. 60) None, Probed ok_peer 67 ''https://b'']"

lemma demo_post_simps:
  "outage hc ''https://b'' 7 (demo_post @ [Selected (\<lambda>_. 80) None])" "outage hc ''https://b'' 7 demo_post"
  "verdicts hc ''https://b'' demo_post = [False, False, False, False]"
  "dc_backends one_backend = [''https://b'']"
  by (simp_all add: demo_post_def one_backend_def)

theorem health_checks_drive_breaker_witness:
  "b_circuit_open (backend_after health_check_default one_backend (Probed ok_peer 7 ''https://b'' # demo_post) 0) \<and>
   5 \<le> failing (verdicts health_check_default ''https://b'' (Probed ok_peer 7 ''https://b'' # demo_post))"
  using health_checks_drive_breaker
      [of 0 one_backend health_check_default "Probed ok_peer 7 ''https://b'' # demo_post" ok_peer 7 demo_post "[]"]
  by (simp add: demo_post_simps heard_def)

text \<open>
  C12: A backend found down is avoided: once a failed probe has been followed by four more, and as
  long as all its probes fail, no request to it is answered, and every selection reads the clock less
  than 30 seconds after the latest probe, no selection of any strategy returns it.
\<close>

theorem dead_backend_is_avoided:
  assumes "heard (dc_backends cfg) i" and "\<not> probe_ok hc net (dc_backends cfg ! i)"
    and "4 \<le> length (verdicts hc (dc_backends cfg ! i) post)"
    and "outage hc (dc_backends cfg ! i) s (post @ [Selected clk ip])"
  shows "fst (select clk ip (ops_run hc (load_balancer_new cfg) (pre @ Probed net s (dc_backends cfg ! i) # post)))
    \<noteq> Some (url, i)"
proof
  let ?u = "dc_backends cfg ! i"
  let ?lb = "ops_run hc (load_balancer_new cfg) (pre @ Probed net s ?u # post)"
  assume "fst (select clk ip ?lb) = Some (url, i)"
  then obtain k where up: "healthy_at (clk k) (lb_backends ?lb ! i)" by (rule select_hit)
  have "b_circuit_open (lb_backends ?lb ! i)" "b_last_failure (lb_backends ?lb ! i) = latest ?u s post"
    using outage_opens [OF assms(1,2) _ assms(3), of s pre] assms(4) by simp_all
  then have "30 \<le> clk k - latest ?u s post" using up by (simp add: healthy_at_def CB_RESET_SECS_def)
  moreover have "clk k - latest ?u s post < 30" using assms(4) by simp
  ultimately show False by simp
qed

theorem dead_backend_is_avoided_witness:
  "fst (select (\<lambda>_. 80) None (ops_run health_check_default (load_balancer_new one_backend)
      (Probed ok_peer 7 ''https://b'' # demo_post))) \<noteq> Some (''https://b'', 0)"
  using dead_backend_is_avoided
      [of one_backend 0 health_check_default ok_peer demo_post 7 "\<lambda>_. 80" None "[]" "''https://b''"]
  by (simp add: demo_post_simps heard_def del: outage_append)

end
