(* ===== verification/Paths.thy ===== *)
theory Paths
  imports RustStr
begin

text \<open>
  Unix paths as \<^verbatim>\<open>std::path\<close> sees them. A \<^verbatim>\<open>PathBuf\<close> is modelled by its components: two paths
  with the same components name the same file, and \<^verbatim>\<open>push\<close>, \<^verbatim>\<open>pop\<close>, \<^verbatim>\<open>join\<close> and \<^verbatim>\<open>starts_with\<close>
  are defined on components by the library itself.
\<close>

datatype component = Prefix string | RootDir | CurDir | ParentDir | Normal string

type_synonym path = "component list"

text \<open>The parts of a string between slashes.\<close>

fun split_char :: "char \<Rightarrow> string \<Rightarrow> string list" where
  "split_char c [] = [Nil]"
| "split_char c (d # s) =
     (if d = c then [] # split_char c s
      else case split_char c s of [] \<Rightarrow> [d # Nil] | w # ws \<Rightarrow> (d # w) # ws)"

text \<open>
  \<^verbatim>\<open>Path::components\<close>: repeated slashes collapse, and a dot is dropped except as the first
  component of a relative path.
\<close>

definition part_component :: "string \<Rightarrow> component" where
  "part_component w = (if w = ''..'' then ParentDir else Normal w)"

definition components :: "string \<Rightarrow> path" where
  "components s =
     (let parts = split_char (CHR ''/'') s;
          lead = (if starts_with s ''/'' then [RootDir]
                  else if hd parts = ''.'' then [CurDir] else [])
      in lead @ map part_component (filter (\<lambda>w. w \<noteq> [] \<and> w \<noteq> ''.'') parts))"

definition is_absolute :: "path \<Rightarrow> bool" where
  "is_absolute p \<longleftrightarrow> (case p of RootDir # _ \<Rightarrow> True | _ \<Rightarrow> False)"

text \<open>\<^verbatim>\<open>join\<close>: an absolute argument replaces the path; a leading dot vanishes in the middle.\<close>

definition path_join :: "path \<Rightarrow> path \<Rightarrow> path" where
  "path_join p q =
     (if is_absolute q \<or> p = [] then q else p @ filter (\<lambda>c. c \<noteq> CurDir) q)"

text \<open>\<^verbatim>\<open>PathBuf::push\<close> of one component, and \<^verbatim>\<open>PathBuf::pop\<close> with its result.\<close>

definition push_part :: "path \<Rightarrow> string \<Rightarrow> path" where
  "push_part p part = p @ [Normal part]"

definition path_pop :: "path \<Rightarrow> (bool \<times> path)" where
  "path_pop p =
     (if p = [] \<or> last p = RootDir \<or> (\<exists>x. last p = Prefix x) then (False, p) else (True, butlast p))"

definition path_starts_with :: "path \<Rightarrow> path \<Rightarrow> bool" where
  "path_starts_with p base \<longleftrightarrow> prefix base p"

section \<open>Facts\<close>

text \<open>A name a directory can hold.\<close>

definition file_name :: "string \<Rightarrow> bool" where
  "file_name w \<longleftrightarrow> w \<noteq> [] \<and> w \<noteq> ''.'' \<and> w \<noteq> ''..'' \<and> CHR ''/'' \<notin> set w"

lemma split_char_nonempty [simp]: "split_char c s \<noteq> []"
  by (induction s) (auto split: list.splits)

lemma split_char_parts: "w \<in> set (split_char c s) \<Longrightarrow> c \<notin> set w"
  by (induction s arbitrary: w) (auto split: list.splits if_splits)

lemma components_Normal: "Normal w \<in> set (components s) \<Longrightarrow> file_name w"
  by (auto simp: components_def part_component_def file_name_def Let_def dest: split_char_parts
      split: if_splits)

lemma components_no_prefix: "Prefix x \<notin> set (components s)"
  by (auto simp: components_def part_component_def Let_def)

lemma split_char_plain: "c \<notin> set s \<Longrightarrow> split_char c s = [s]"
  by (induction s) auto

lemma split_char_append: "c \<notin> set w \<Longrightarrow> split_char c (w @ c # s) = w # split_char c s"
  by (induction w) auto

fun join_path :: "string list \<Rightarrow> string" where
  "join_path [] = []"
| "join_path (w # ws) = ''/'' @ w @ join_path ws"

lemma components_join_path:
  assumes "\<forall>w \<in> set ws. CHR ''/'' \<notin> set w \<and> w \<noteq> [] \<and> w \<noteq> ''.''" and "ws \<noteq> []"
  shows "components (join_path ws) = RootDir # map part_component ws"
proof -
  have "\<forall>w \<in> set ws. CHR ''/'' \<notin> set w \<Longrightarrow> CHR ''/'' \<notin> set w0 \<Longrightarrow>
      split_char (CHR ''/'') (w0 @ join_path ws) = w0 # ws" for w0
  proof (induction ws arbitrary: w0)
    case Nil
    then show ?case by (simp add: split_char_plain)
  next
    case (Cons w ws)
    then show ?case by (simp add: split_char_append)
  qed
  from this [of "[]"] assms have "split_char (CHR ''/'') (join_path ws) = [] # ws" by simp
  moreover have "starts_with (join_path ws) ''/''"
    using assms(2) by (cases ws) (auto simp: starts_with_def)
  moreover have "filter (\<lambda>w. w \<noteq> [] \<and> w \<noteq> ''.'') ws = ws"
    using assms(1) by (simp add: filter_id_conv)
  ultimately show ?thesis by (simp add: components_def)
qed

end
