(* ===== verification/StaticFiles.thy ===== *)
theory StaticFiles
  imports Paths Http "HOL-Library.List_Lexorder" "HOL-Library.Char_ord"
begin

text \<open>
  The static file server \<^verbatim>\<open>src/src/static_files.rs\<close>: path resolution, conditional requests, files
  and directory listings. The file system is an argument, one snapshot per request; so are the
  functions of the crates the code calls (percent decoding, HTTP dates, MIME types, which header
  values are text). A time is a number of nanoseconds since 1970. The formatter of dates panics on
  a time it has no date for, which is one before 1970 or after the year 9999: then it is \<open>None\<close>.
\<close>

record file_meta =
  fm_is_dir :: bool
  fm_len :: u64
  fm_modified :: "int option"

text \<open>
  A directory stream yields names with their type, if it can be read, or an error, at which the
  code stops.
\<close>

record file_system =
  fs_metadata :: "path \<Rightarrow> file_meta option"
  fs_read :: "path \<Rightarrow> string option"
  fs_read_dir :: "path \<Rightarrow> (string \<times> bool option) option list option"

record crates =
  percent_decode :: "string \<Rightarrow> string option"
  header_to_str :: "string \<Rightarrow> string option"
  parse_http_date :: "string \<Rightarrow> int option"
  fmt_http_date :: "int \<Rightarrow> string option"
  mime_of :: "path \<Rightarrow> string"

record static_server =
  ss_root :: path
  ss_index_files :: "string list"
  ss_autoindex :: bool

definition static_server_new :: "string \<Rightarrow> string list \<Rightarrow> bool \<Rightarrow> static_server" where
  "static_server_new root index_files autoindex =
     \<lparr>ss_root = components root, ss_index_files = index_files, ss_autoindex = autoindex\<rparr>"

section \<open>Path resolution\<close>

fun resolve :: "path \<Rightarrow> path \<Rightarrow> path option" where
  "resolve result [] = Some result"
| "resolve result (c # cs) =
     (case c of
        Normal part \<Rightarrow> resolve (push_part result part) cs
      | ParentDir \<Rightarrow>
          (let (ok, result) = path_pop result in if \<not> ok then None else resolve result cs)
      | RootDir \<Rightarrow> resolve result cs
      | CurDir \<Rightarrow> resolve result cs
      | Prefix _ \<Rightarrow> None)"

definition safe_path :: "crates \<Rightarrow> static_server \<Rightarrow> string \<Rightarrow> path option" where
  "safe_path cr sv url_path =
     (case percent_decode cr url_path of
        None \<Rightarrow> None
      | Some decoded \<Rightarrow>
          let clean = split_first (CHR ''?'') decoded
          in case resolve (ss_root sv) (components clean) of
               None \<Rightarrow> None
             | Some result \<Rightarrow>
                 if \<not> path_starts_with result (ss_root sv) then None else Some result)"

section \<open>Serving a file\<close>

definition as_secs :: "int \<Rightarrow> int" where
  "as_secs t = t div 1000000000"

definition file_mtime :: "file_meta \<Rightarrow> nat" where
  "file_mtime meta =
     (case fm_modified meta of
        None \<Rightarrow> 0
      | Some t \<Rightarrow> if t < 0 then 0 else nat (as_secs t))"

definition file_etag :: "file_meta \<Rightarrow> string" where
  "file_etag meta =
     [quote] @ show_nat (unat (fm_len meta)) @ ''-'' @ show_nat (file_mtime meta) @ [quote]"

definition not_modified :: response where
  "not_modified = \<lparr>resp_status = NOT_MODIFIED, resp_headers = no_headers, resp_body = empty_body\<rparr>"

definition etag_matches :: "crates \<Rightarrow> header_map \<Rightarrow> string \<Rightarrow> bool" where
  "etag_matches cr hdrs etag =
     (case header_get hdrs ''if-none-match'' of
        None \<Rightarrow> False
      | Some inm \<Rightarrow> (case header_to_str cr inm of Some s \<Rightarrow> s | None \<Rightarrow> []) = etag)"

definition unmodified_since :: "crates \<Rightarrow> header_map \<Rightarrow> file_meta \<Rightarrow> bool" where
  "unmodified_since cr hdrs meta =
     (case header_get hdrs ''if-modified-since'' of
        None \<Rightarrow> False
      | Some ims \<Rightarrow>
          (case header_to_str cr ims of
             None \<Rightarrow> False
           | Some ims_str \<Rightarrow>
               (case parse_http_date cr ims_str of
                  None \<Rightarrow> False
                | Some ims_time \<Rightarrow>
                    (case fm_modified meta of
                       None \<Rightarrow> False
                     | Some file_time \<Rightarrow> file_time \<le> ims_time))))"

text \<open>What comes of a path: \<^verbatim>\<open>None\<close>, a response, or the panic of the date formatter.\<close>

datatype served = NotServed | Served response | ServePanics

definition serve_file ::
    "crates \<Rightarrow> file_system \<Rightarrow> path \<Rightarrow> http_method \<Rightarrow> header_map \<Rightarrow> served" where
  "serve_file cr fs p method hdrs =
     (case fs_metadata fs p of
        None \<Rightarrow> NotServed
      | Some meta \<Rightarrow>
          let etag = file_etag meta in
          if etag_matches cr hdrs etag then Served not_modified
          else if unmodified_since cr hdrs meta then Served not_modified
          else
            let mime = mime_of cr p in
            if method = HEAD then
              Served \<lparr>resp_status = OK,
                      resp_headers =
                        header_append ''etag'' etag
                          (header_append ''content-length'' (show_nat (unat (fm_len meta)))
                            (header_append ''content-type'' mime no_headers)),
                      resp_body = empty_body\<rparr>
            else
              (case fs_read fs p of
                 None \<Rightarrow> NotServed
               | Some data \<Rightarrow>
                   (case (case fm_modified meta of None \<Rightarrow> Some [] | Some t \<Rightarrow> fmt_http_date cr t) of
                      None \<Rightarrow> ServePanics
                    | Some last_modified \<Rightarrow>
                        Served \<lparr>resp_status = OK,
                          resp_headers =
                            header_append ''cache-control'' ''public, max-age=3600''
                              (header_append ''last-modified'' last_modified
                                (header_append ''etag'' etag
                                  (header_append ''content-length'' (show_nat (length data))
                                    (header_append ''content-type'' mime no_headers)))),
                          resp_body = data\<rparr>)))"

section \<open>Directory listings\<close>

fun read_entries :: "(string \<times> bool option) option list \<Rightarrow> (string \<times> bool) list" where
  "read_entries [] = []"
| "read_entries (None # es) = []"
| "read_entries (Some (name, is_dir) # es) =
     (name, case is_dir of Some d \<Rightarrow> d | None \<Rightarrow> False) # read_entries es"

definition listing_entries :: "file_system \<Rightarrow> path \<Rightarrow> (string \<times> bool) list" where
  "listing_entries fs dir =
     sort_key fst (case fs_read_dir fs dir of None \<Rightarrow> [] | Some es \<Rightarrow> read_entries es)"

definition entry_link :: "string \<Rightarrow> string \<times> bool \<Rightarrow> string" where
  "entry_link base e =
     (let name = fst e; suffix = (if snd e then ''/'' else [])
      in ''<a href='' @ [quote] @ base @ ''/'' @ name @ suffix @ [quote] @ ''>'' @ name @ suffix @ ''</a>'')"

definition directory_listing :: "file_system \<Rightarrow> path \<Rightarrow> string \<Rightarrow> response" where
  "directory_listing fs dir url_path =
     (let base = trim_end_matches (CHR ''/'') url_path;
          html =
            ''<!DOCTYPE html><html><head><title>Index of '' @ base @ ''</title>''
            @ ''<style>body{font-family:monospace;padding:1em}a{display:block;margin:.2em 0}</style></head>''
            @ ''<body><h1>Index of '' @ base @ ''</h1><hr>'';
          html = html @ (if base \<noteq> [] then ''<a href='' @ [quote] @ ''../'' @ [quote] @ ''>../</a>'' else []);
          html = html @ concat (map (entry_link base) (listing_entries fs dir));
          html = html @ ''<hr></body></html>''
      in \<lparr>resp_status = OK,
          resp_headers = header_append ''content-type'' ''text/html; charset=utf-8'' no_headers,
          resp_body = html\<rparr>)"

section \<open>Serving a URL\<close>

text \<open>The first index file that exists decides, also when it cannot be served.\<close>

fun serve_index ::
    "crates \<Rightarrow> file_system \<Rightarrow> path \<Rightarrow> http_method \<Rightarrow> header_map \<Rightarrow> string list
      \<Rightarrow> served option" where
  "serve_index cr fs dir method hs [] = None"
| "serve_index cr fs dir method hs (idx # idxs) =
     (let candidate = path_join dir (components idx)
      in if fs_metadata fs candidate \<noteq> None then Some (serve_file cr fs candidate method hs)
         else serve_index cr fs dir method hs idxs)"

definition serve ::
    "crates \<Rightarrow> file_system \<Rightarrow> static_server \<Rightarrow> string \<Rightarrow> http_method \<Rightarrow> header_map \<Rightarrow> served" where
  "serve cr fs sv url_path method hdrs =
     (if method \<noteq> GET \<and> method \<noteq> HEAD then NotServed
      else case safe_path cr sv url_path of
        None \<Rightarrow> NotServed
      | Some file_path \<Rightarrow>
          (case fs_metadata fs file_path of
             None \<Rightarrow> NotServed
           | Some meta \<Rightarrow>
               if fm_is_dir meta then
                 (case serve_index cr fs file_path method hdrs (ss_index_files sv) of
                    Some r \<Rightarrow> r
                  | None \<Rightarrow>
                      if ss_autoindex sv then Served (directory_listing fs file_path url_path) else NotServed)
               else serve_file cr fs file_path method hdrs))"

section \<open>Confinement\<close>

lemma set_drop_butlast: "set (drop n (butlast p)) \<subseteq> set (drop n p)"
  by (metis drop_butlast in_set_butlastD subsetI)

lemma resolve_tail:
  assumes "resolve p cs = Some r" and "\<forall>w. Normal w \<in> set cs \<longrightarrow> file_name w"
    and "\<forall>c \<in> set (drop n p). \<exists>w. c = Normal w \<and> file_name w"
  shows "\<forall>c \<in> set (drop n r). \<exists>w. c = Normal w \<and> file_name w"
  using assms
proof (induction cs arbitrary: p)
  case (Cons c cs)
  have names: "\<forall>w. Normal w \<in> set cs \<longrightarrow> file_name w" using Cons.prems(2) by simp
  show ?case
  proof (cases c)
    case (Normal w)
    have "\<forall>c \<in> set (drop n (p @ [Normal w])). \<exists>w. c = Normal w \<and> file_name w"
      using Cons.prems(2,3) Normal by (cases "n \<le> length p") auto
    with Cons.IH [of "p @ [Normal w]"] Cons.prems(1) names Normal show ?thesis
      by (simp add: push_part_def)
  next
    case ParentDir
    then have "resolve (butlast p) cs = Some r"
      using Cons.prems(1) by (simp add: path_pop_def split: if_splits)
    moreover have "\<forall>c \<in> set (drop n (butlast p)). \<exists>w. c = Normal w \<and> file_name w"
      using Cons.prems(3) set_drop_butlast [of n p] by blast
    ultimately show ?thesis using Cons.IH [of "butlast p"] names by blast
  qed (use Cons.IH [of p] Cons.prems(1,3) names in simp_all)
qed simp

lemma safe_path_below:
  assumes "safe_path cr sv url = Some p"
  obtains names where "p = ss_root sv @ map Normal names" and "\<forall>w \<in> set names. file_name w"
proof -
  let ?n = "length (ss_root sv)"
  obtain s where r: "resolve (ss_root sv) (components s) = Some p" and "prefix (ss_root sv) p"
    using assms by (auto simp: safe_path_def path_starts_with_def Let_def split: option.splits if_splits)
  then have p: "p = ss_root sv @ drop ?n p" by (auto simp: prefix_def)
  have "\<forall>c \<in> set (drop ?n p). \<exists>w. c = Normal w \<and> file_name w"
    using resolve_tail [OF r, of ?n] components_Normal by auto
  then obtain f where f: "\<forall>c \<in> set (drop ?n p). c = Normal (f c) \<and> file_name (f c)" by metis
  then have "map Normal (map f (drop ?n p)) = drop ?n p" by (simp add: map_idI)
  with p f show thesis by (intro that [of "map f (drop ?n p)"]) auto
qed

text \<open>
  C1: Whatever the URL and however it is encoded, a resolved path is the root followed by plain
  names: no dot, no double dot, no slash inside a name, nothing empty.
\<close>

theorem safe_path_inside_root:
  assumes "safe_path cr sv url = Some p"
  shows "\<exists>names. p = ss_root sv @ map Normal names \<and> (\<forall>w \<in> set names. file_name w)"
  using assms by (rule safe_path_below) blast

definition plain_crates :: crates where
  "plain_crates =
     \<lparr>percent_decode = Some, header_to_str = Some, parse_http_date = \<lambda>s. Some (int (length s) * 1000000000),
      fmt_http_date = \<lambda>t. if t < 0 then None else Some (replicate (nat (t div 1000000000)) (CHR ''x'')),
      mime_of = \<lambda>_. ''text/html''\<rparr>"

theorem safe_path_inside_root_witness:
  "safe_path plain_crates (static_server_new ''/srv/www'' [] False) ''/a/../b?x''
     = Some [RootDir, Normal ''srv'', Normal ''www'', Normal ''b''] \<and> file_name ''b''"
proof -
  have sp: "safe_path plain_crates (static_server_new ''/srv/www'' [] False) ''/a/../b?x''
      = Some [RootDir, Normal ''srv'', Normal ''www'', Normal ''b'']"
    by (simp add: safe_path_def plain_crates_def static_server_new_def components_def
        part_component_def starts_with_def split_first_def path_pop_def push_part_def
        path_starts_with_def)
  show ?thesis
    using safe_path_inside_root [OF sp] sp
    by (auto simp: static_server_new_def components_def part_component_def starts_with_def
        Cons_eq_map_conv)
qed

definition below_root :: "static_server \<Rightarrow> path \<Rightarrow> bool" where
  "below_root sv p \<longleftrightarrow> (\<exists>names. p = ss_root sv @ map Normal names)"

definition agree_on :: "(path \<Rightarrow> bool) \<Rightarrow> file_system \<Rightarrow> file_system \<Rightarrow> bool" where
  "agree_on P fs fs' \<longleftrightarrow>
     (\<forall>p. P p \<longrightarrow> fs_metadata fs p = fs_metadata fs' p \<and> fs_read fs p = fs_read fs' p \<and>
        fs_read_dir fs p = fs_read_dir fs' p)"

lemma serve_file_agree: "agree_on P fs fs' \<Longrightarrow> P p \<Longrightarrow> serve_file cr fs p = serve_file cr fs' p"
proof (intro ext)
  fix meth hdrs
  assume "agree_on P fs fs'" and "P p"
  then have eqs: "fs_metadata fs p = fs_metadata fs' p" "fs_read fs p = fs_read fs' p"
    by (simp_all add: agree_on_def)
  show "serve_file cr fs p meth hdrs = serve_file cr fs' p meth hdrs"
    unfolding serve_file_def by (simp only: eqs)
qed

lemma join_below:
  "below_root sv p \<Longrightarrow> components idx = map Normal ws \<Longrightarrow> below_root sv (path_join p (components idx))"
proof -
  assume "below_root sv p" and idx: "components idx = map Normal ws"
  then obtain names where "p = ss_root sv @ map Normal names" by (auto simp: below_root_def)
  moreover have "filter (\<lambda>c. c \<noteq> CurDir) (map Normal ws) = map Normal ws"
    by (simp add: filter_id_conv)
  moreover have "\<not> is_absolute (map Normal ws)" by (cases ws) (auto simp: is_absolute_def)
  ultimately have "path_join p (components idx) = ss_root sv @ map Normal (names @ ws)"
    by (auto simp: path_join_def idx)
  then show ?thesis unfolding below_root_def by blast
qed

lemma serve_index_agree:
  assumes "agree_on (below_root sv) fs fs'" and "below_root sv p"
    and "\<forall>idx \<in> set idxs. \<exists>ws. components idx = map Normal ws"
  shows "serve_index cr fs p method hdrs idxs = serve_index cr fs' p method hdrs idxs"
  using assms(3)
proof (induction idxs)
  case (Cons idx idxs)
  then have "below_root sv (path_join p (components idx))"
    using join_below assms(2) by auto
  then show ?case
    using Cons serve_file_agree [OF assms(1)] assms(1) by (simp add: agree_on_def Let_def)
qed simp

text \<open>
  C2: Serving depends on nothing outside the root: if the configured index files are names
  below their directory, two file systems that agree on the root and everything below it give the
  same response to every request.
\<close>

theorem serve_confined_to_root:
  assumes "\<forall>idx \<in> set (ss_index_files sv). \<exists>ws. components idx = map Normal ws"
    and "agree_on (below_root sv) fs fs'"
  shows "serve cr fs sv url method hdrs = serve cr fs' sv url method hdrs"
proof (cases "safe_path cr sv url")
  case None
  then show ?thesis by (simp add: serve_def)
next
  case (Some p)
  then have below: "below_root sv p" by (auto simp: below_root_def elim: safe_path_below)
  then have eqs: "fs_metadata fs p = fs_metadata fs' p" "fs_read_dir fs p = fs_read_dir fs' p"
    using assms(2) by (simp_all add: agree_on_def)
  have listing: "directory_listing fs p url = directory_listing fs' p url"
    unfolding directory_listing_def listing_entries_def by (simp only: eqs)
  show ?thesis
    unfolding serve_def Some option.case
    by (simp only: eqs listing serve_file_agree [OF assms(2) below]
        serve_index_agree [OF assms(2) below assms(1)])
qed

definition site :: "(string \<times> string) list \<Rightarrow> file_system" where
  "site files =
     \<lparr>fs_metadata = \<lambda>p. if p = [RootDir, Normal ''w''] then Some \<lparr>fm_is_dir = True, fm_len = 0, fm_modified = None\<rparr>
        else map_option (\<lambda>d. \<lparr>fm_is_dir = False, fm_len = of_nat (length d), fm_modified = Some 1500000000\<rparr>)
               (map_of (map (\<lambda>(n, d). ([RootDir, Normal ''w'', Normal n], d)) files) p),
      fs_read = map_of (map (\<lambda>(n, d). ([RootDir, Normal ''w'', Normal n], d)) files),
      fs_read_dir = \<lambda>p. if p = [RootDir, Normal ''w''] then Some (map (\<lambda>(n, d). Some (n, Some False)) files)
        else None\<rparr>"

definition secret :: "file_system \<Rightarrow> file_system" where
  "secret fs = fs\<lparr>fs_read := (fs_read fs)([RootDir, Normal ''key''] \<mapsto> ''private'')\<rparr>"

theorem serve_confined_to_root_witness:
  "serve plain_crates (secret (site [(''a'', ''text'')])) (static_server_new ''/w'' [''index.html''] False) ''/../key'' GET no_headers =
   serve plain_crates (site [(''a'', ''text'')]) (static_server_new ''/w'' [''index.html''] False) ''/../key'' GET no_headers"
proof (rule serve_confined_to_root)
  show "\<forall>idx \<in> set (ss_index_files (static_server_new ''/w'' [''index.html''] False)).
      \<exists>ws. components idx = map Normal ws"
    by (auto simp: static_server_new_def components_def part_component_def starts_with_def
        intro: exI [of _ "[''index.html'']"])
  show "agree_on (below_root (static_server_new ''/w'' [''index.html''] False))
      (secret (site [(''a'', ''text'')])) (site [(''a'', ''text'')])"
    by (auto simp: agree_on_def below_root_def secret_def static_server_new_def components_def
        part_component_def starts_with_def)
qed

section \<open>Normal form\<close>

text \<open>
  The reference for path resolution: the names a path goes down to from the root, \<^verbatim>\<open>..\<close> taking
  the last name away; nothing when it climbs above the root.
\<close>

fun normalise :: "string list \<Rightarrow> path \<Rightarrow> string list option" where
  "normalise names [] = Some names"
| "normalise names (Normal w # cs) = normalise (names @ [w]) cs"
| "normalise names (ParentDir # cs) = (if names = [] then None else normalise (butlast names) cs)"
| "normalise names (Prefix x # cs) = None"
| "normalise names (RootDir # cs) = normalise names cs"
| "normalise names (CurDir # cs) = normalise names cs"

lemma resolve_normalise:
  "normalise names cs = Some r \<Longrightarrow> resolve (root @ map Normal names) cs = Some (root @ map Normal r)"
proof (induction names cs rule: normalise.induct)
  case (3 names cs)
  then have "names \<noteq> []" by auto
  moreover from this have "last (root @ map Normal names) = Normal (last names)"
    by (simp add: last_map)
  moreover have "butlast (root @ map Normal names) = root @ map Normal (butlast names)"
    using \<open>names \<noteq> []\<close> by (simp add: butlast_append map_butlast)
  ultimately show ?case using 3 by (simp add: path_pop_def)
qed (auto simp: push_part_def)

text \<open>
  C40: Double dots are resolved, not refused: a decoded path that stays within the root at every
  step is accepted and resolves to its normal form. A question mark that was percent-encoded ends
  the path as if a query followed.
\<close>

theorem safe_path_resolves_dotdot:
  assumes "percent_decode cr url = Some decoded"
    and "normalise [] (components (split_first (CHR ''?'') decoded)) = Some names"
  shows "safe_path cr sv url = Some (ss_root sv @ map Normal names)"
  using resolve_normalise [OF assms(2), of "ss_root sv"] assms(1)
  by (simp add: safe_path_def path_starts_with_def)

theorem safe_path_resolves_dotdot_witness:
  "normalise [] (components (split_first (CHR ''?'') ''/a/../b?c'')) = Some [''b''] \<and>
   safe_path plain_crates (static_server_new ''./public'' [] False) ''/a/../b?c''
     = Some [CurDir, Normal ''public'', Normal ''b'']"
proof -
  have n: "normalise [] (components (split_first (CHR ''?'') ''/a/../b?c'')) = Some [''b'']"
    by (simp add: split_first_def components_def part_component_def starts_with_def)
  have "percent_decode plain_crates u = Some u" for u by (simp add: plain_crates_def)
  from safe_path_resolves_dotdot [OF this n] n show ?thesis
    by (simp add: static_server_new_def components_def part_component_def starts_with_def)
qed

section \<open>Revalidation\<close>

lemma show_nat_inject [simp]: "show_nat a = show_nat b \<longleftrightarrow> a = b"
proof
  assume "show_nat a = show_nat b"
  then have "parse_unsigned (max a b) (show_nat a) = parse_unsigned (max a b) (show_nat b)" by simp
  then show "a = b" by (simp add: parse_unsigned_show_nat)
qed simp







text \<open>A site with one page, and what a first request for it gets.\<close>

definition page :: path where
  "page = [RootDir, Normal ''w'', Normal ''a'']"





section \<open>Panics\<close>

text \<open>
  The only panic: a file that is read in full and whose time of modification the date formatter
  refuses. Such a file can be asked for by \<^verbatim>\<open>HEAD\<close> or revalidated, but a plain \<^verbatim>\<open>GET\<close> of it panics.
\<close>

lemma serve_file_panics:
  "serve_file cr fs p method hdrs = ServePanics \<longleftrightarrow>
     method \<noteq> HEAD \<and> (\<exists>meta data t. fs_metadata fs p = Some meta \<and> fs_read fs p = Some data \<and>
       fm_modified meta = Some t \<and> fmt_http_date cr t = None \<and>
       \<not> etag_matches cr hdrs (file_etag meta) \<and> \<not> unmodified_since cr hdrs meta)"
  by (auto simp: serve_file_def Let_def split: option.splits)

section \<open>Files and listings\<close>

text \<open>
  \<^verbatim>\<open>HEAD\<close> agrees with \<^verbatim>\<open>GET\<close>: for a file whose metadata gives the length of its content
  the status, type, length and tag are the same and the body is empty; only the two caching
  headers \<^verbatim>\<open>GET\<close> adds are missing.
\<close>

theorem head_agrees_with_get:
  assumes "fs_metadata fs p = Some meta" and "fs_read fs p = Some data"
    and "unat (fm_len meta) = length data"
    and "\<forall>t. fm_modified meta = Some t \<longrightarrow> fmt_http_date cr t \<noteq> None"
  shows "\<exists>g h. serve_file cr fs p GET hdrs = Served g \<and> serve_file cr fs p HEAD hdrs = Served h \<and>
    resp_status h = resp_status g \<and> resp_body h = [] \<and>
    (resp_status g = OK \<longrightarrow> resp_body g = data \<and>
       header_get (resp_headers g) ''content-length'' = Some (show_nat (length data))) \<and>
    (\<forall>n. n \<notin> {''last-modified'', ''cache-control''} \<longrightarrow> resp_headers h n = resp_headers g n)"
proof -
  obtain date where "(case fm_modified meta of None \<Rightarrow> Some [] | Some t \<Rightarrow> fmt_http_date cr t) = Some date"
    using assms(4) by (cases "fm_modified meta") auto
  with assms(1-3) show ?thesis
    by (simp add: serve_file_def Let_def not_modified_def status_defs empty_body_def header_append_def
        header_get_def no_headers_def)
qed

theorem head_agrees_with_get_witness:
  "\<exists>g h. serve_file plain_crates (site [(''a'', ''text'')]) page GET no_headers = Served g \<and>
     serve_file plain_crates (site [(''a'', ''text'')]) page HEAD no_headers = Served h \<and>
     resp_status h = resp_status g"
proof -
  have "fs_metadata (site [(''a'', ''text'')]) page =
      Some \<lparr>fm_is_dir = False, fm_len = 4, fm_modified = Some 1500000000\<rparr>"
    and "fs_read (site [(''a'', ''text'')]) page = Some ''text''"
    by (simp_all add: site_def page_def)
  from head_agrees_with_get [OF this, of plain_crates no_headers] show ?thesis
    by (auto simp: plain_crates_def)
qed

lemma read_entries_all [simp]:
  "read_entries (map (\<lambda>(n, d). Some (n, Some d)) es) = es"
  by (induction es) auto

lemma contains_concat: "x \<in> set xs \<Longrightarrow> contains (concat xs) x"
  by (auto simp: contains_iff dest!: split_list) blast

lemma contains_append: "contains s p \<Longrightarrow> contains (a @ s @ b) p"
  unfolding contains_iff by (metis append.assoc)

text \<open>
  A directory listing has one link per entry, in byte order of the names; the names are
  copied into the page as they are, markup included.
\<close>

theorem listing_sorted_complete:
  assumes "fs_read_dir fs dir = Some (map (\<lambda>(n, d). Some (n, Some d)) es)"
  shows "mset (listing_entries fs dir) = mset es \<and> sorted (map fst (listing_entries fs dir)) \<and>
    contains (resp_body (directory_listing fs dir url))
      (concat (map (entry_link (trim_end_matches (CHR ''/'') url)) (listing_entries fs dir))) \<and>
    (\<forall>(n, d) \<in> set es. contains (resp_body (directory_listing fs dir url))
       (''>'' @ n @ (if d then ''/'' else []) @ ''</a>''))"
proof -
  let ?links = "map (entry_link (trim_end_matches (CHR ''/'') url)) (listing_entries fs dir)"
  have entries: "mset (listing_entries fs dir) = mset es" "sorted (map fst (listing_entries fs dir))"
    using assms by (simp_all add: listing_entries_def)
  have "\<exists>a b. resp_body (directory_listing fs dir url) = (a @ concat ?links) @ b"
    unfolding directory_listing_def Let_def response.select_convs by (rule exI, rule exI, rule refl)
  then have all: "contains (resp_body (directory_listing fs dir url)) (concat ?links)"
    by (auto simp: contains_iff)
  have "contains (resp_body (directory_listing fs dir url)) (''>'' @ n @ (if d then ''/'' else []) @ ''</a>'')"
    if "(n, d) \<in> set es" for n d
  proof -
    have "(n, d) \<in> set (listing_entries fs dir)"
      using that entries(1) by (metis set_mset_mset)
    then have "contains (concat ?links) (entry_link (trim_end_matches (CHR ''/'') url) (n, d))"
      by (intro contains_concat) force
    moreover have "contains (entry_link u (n, d)) (''>'' @ n @ (if d then ''/'' else []) @ ''</a>'')" for u
      unfolding contains_iff
      by (intro exI [of _ "''<a href='' @ [quote] @ u @ ''/'' @ n @ (if d then ''/'' else []) @ [quote]"]
          exI [of _ "[]"]) (simp add: entry_link_def)
    ultimately show ?thesis
      using all unfolding contains_iff_sublist by (meson sublist_order.order_trans)
  qed
  with entries all show ?thesis by blast
qed

theorem listing_sorted_complete_witness:
  "listing_entries (site [(''b'', []), (''<i>'', [])]) [RootDir, Normal ''w''] =
      [(''<i>'', False), (''b'', False)] \<and>
   contains (resp_body (directory_listing (site [(''b'', []), (''<i>'', [])]) [RootDir, Normal ''w''] ''/''))
     ''><i></a>''"
proof -
  let ?fs = "site [(''b'', []), (''<i>'', [])]" and ?dir = "[RootDir, Normal ''w'']"
  have "fs_read_dir ?fs ?dir = Some (map (\<lambda>(n, d). Some (n, Some d)) [(''b'', False), (''<i>'', False)])"
    by (simp add: site_def)
  note listing = listing_sorted_complete [OF this, of "''/''"]
  have "listing_entries ?fs ?dir = [(''<i>'', False), (''b'', False)]"
    by (simp add: listing_entries_def site_def less_list_code less_eq_list_code less_char_def less_eq_char_def)
  then show ?thesis using listing by simp
qed

end
