(* ===== verification/Proxy.thy ===== *)
theory Proxy
  imports BalancerProps RateLimit Security StaticFiles ErrorPages
begin

text \<open>
  The request handler \<^verbatim>\<open>src/src/proxy.rs\<close>: the gates a request passes in order, the two ways to a
  backend, and the header rewriting. A request is one call of \<open>handle\<close> on the state it shares with
  the others, the rate limiter and the balancers. The platform record holds what lies outside the
  program: the crates, the file system, the backends, and what other tasks do to the balancer of
  the domain while this request waits for its backend.
\<close>

section \<open>Platform and state\<close>

text \<open>What becomes of a request sent to a backend, with the time limit of each of its two waits.\<close>

datatype exchange =
    ConnectTimeout | ConnectError | HandshakeError | RequestTimeout | RequestError
  | Responds response

record platform =
  pf_crates :: crates
  pf_lowercase :: "string \<Rightarrow> string"
  pf_parse_uri :: "string \<Rightarrow> uri option"
  pf_header_name :: "string \<Rightarrow> string option"
  pf_header_value :: "string \<Rightarrow> bool"
  pf_fs :: file_system
  pf_upstream :: "u64 \<Rightarrow> string \<Rightarrow> request \<Rightarrow> exchange"
  pf_meanwhile :: "load_balancer \<Rightarrow> load_balancer"

record proxy_handler =
  ph_security :: security_checker
  ph_timeout :: u64
  ph_domain_configs :: "string \<rightharpoonup> domain_config"
  ph_static_servers :: "string \<rightharpoonup> static_server"

record proxy_state =
  ps_rate_limiter :: rate_limiter
  ps_lb_manager :: lb_manager

text \<open>The readings of the two clocks during one request.\<close>

record clocks =
  ck_instant :: nat
  ck_unix :: "nat \<Rightarrow> u64"

definition proxy_handler_new ::
    "security_checker \<Rightarrow> u64 \<Rightarrow> (string \<times> domain_config) list \<Rightarrow> proxy_handler" where
  "proxy_handler_new security secs domain_configs =
     \<lparr>ph_security = security, ph_timeout = secs, ph_domain_configs = map_of domain_configs,
      ph_static_servers =
        foldl (\<lambda>m (domain, cfg).
            case dc_static_files cfg of
              None \<Rightarrow> m
            | Some sf \<Rightarrow> m(domain \<mapsto> static_server_new (sf_root sf) (sf_index sf) (sf_autoindex sf)))
          Map.empty domain_configs\<rparr>"

section \<open>Headers\<close>

definition header_text :: "platform \<Rightarrow> header_map \<Rightarrow> string \<Rightarrow> string option" where
  "header_text pf hs n = Option.bind (header_get hs n) (header_to_str (pf_crates pf))"

definition request_host :: "platform \<Rightarrow> request \<Rightarrow> string" where
  "request_host pf req =
     (case header_text pf (rq_headers req) ''host'' of
        Some h \<Rightarrow> ascii_lower (split_first (CHR '':'') h)
      | None \<Rightarrow> [])"

definition is_websocket_upgrade :: "platform \<Rightarrow> request \<Rightarrow> bool" where
  "is_websocket_upgrade pf req =
     eq_ignore_ascii_case
       (case header_text pf (rq_headers req) ''upgrade'' of Some u \<Rightarrow> u | None \<Rightarrow> [])
       ''websocket''"

definition value_or_empty :: "platform \<Rightarrow> string \<Rightarrow> string" where
  "value_or_empty pf v = (if pf_header_value pf v then v else [])"

definition add_forwarding_headers :: "platform \<Rightarrow> ip_addr \<Rightarrow> string \<Rightarrow> header_map \<Rightarrow> header_map" where
  "add_forwarding_headers pf ip host hs =
     (let xff = (case header_text pf hs ''x-forwarded-for'' of
                   Some existing \<Rightarrow> existing @ '', '' @ show_ip ip
                 | None \<Rightarrow> show_ip ip);
          hs = header_insert ''x-forwarded-for'' (value_or_empty pf xff) hs;
          hs = header_insert ''x-real-ip'' (value_or_empty pf (show_ip ip)) hs
      in if host \<noteq> [] \<and> pf_header_value pf host then header_insert ''x-forwarded-host'' host hs else hs)"

definition inject_header :: "platform \<Rightarrow> header_map \<Rightarrow> extra_header \<Rightarrow> header_map" where
  "inject_header pf hs h =
     (case pf_header_name pf (eh_name h) of
        Some name \<Rightarrow> if pf_header_value pf (eh_value h) then header_insert name (eh_value h) hs else hs
      | None \<Rightarrow> hs)"

definition inject_extra_headers ::
    "platform \<Rightarrow> string \<Rightarrow> (string \<rightharpoonup> domain_config) \<Rightarrow> response \<Rightarrow> response" where
  "inject_extra_headers pf host domain_configs resp =
     (case domain_configs host of
        None \<Rightarrow> resp
      | Some cfg \<Rightarrow> resp\<lparr>resp_headers := foldl (inject_header pf) (resp_headers resp) (dc_headers cfg)\<rparr>)"

section \<open>To the backend\<close>

datatype proxy_error =
    NoBackend | AllDown | BadBackendUri | BadRequestUri | Upstream exchange | Rejected nat

definition backend_addr :: "uri \<Rightarrow> string" where
  "backend_addr u =
     (let backend_host = (case uri_host u of Some h \<Rightarrow> h | None \<Rightarrow> ''localhost'');
          backend_port = (case uri_port u of Some p \<Rightarrow> p | None \<Rightarrow> 80)
      in backend_host @ '':'' @ show_nat (unat backend_port))"

definition request_target :: "uri \<Rightarrow> string" where
  "request_target u = (case uri_path_and_query u of Some pq \<Rightarrow> pq | None \<Rightarrow> ''/'')"

text \<open>
  The common part of \<^verbatim>\<open>proxy_http\<close> and \<^verbatim>\<open>proxy_websocket\<close> after a backend is selected: address and
  request are built, then the backend is asked.
\<close>

definition send_to_backend ::
    "platform \<Rightarrow> u64 \<Rightarrow> string \<Rightarrow> request \<Rightarrow> string \<Rightarrow> ip_addr \<Rightarrow> proxy_error + response" where
  "send_to_backend pf limit backend_url req host ip =
     (case pf_parse_uri pf backend_url of
        None \<Rightarrow> Inl BadBackendUri
      | Some backend_uri \<Rightarrow>
          (case pf_parse_uri pf (request_target (rq_uri req)) of
             None \<Rightarrow> Inl BadRequestUri
           | Some target \<Rightarrow>
               let req = req\<lparr>rq_uri := target,
                             rq_headers := add_forwarding_headers pf ip host (rq_headers req)\<rparr>
               in case pf_upstream pf limit (backend_addr backend_uri) req of
                    Responds resp \<Rightarrow> Inr resp
                  | failed \<Rightarrow> Inl (Upstream failed)))"

text \<open>
  The guard lives until the function returns, on every path. Outcomes of the exchange reach the
  balancer only here, and only as \<^verbatim>\<open>success\<close>.
\<close>

definition proxy_http ::
    "platform \<Rightarrow> proxy_handler \<Rightarrow> (nat \<Rightarrow> u64) \<Rightarrow> request \<Rightarrow> string \<Rightarrow> ip_addr \<Rightarrow> lb_manager
      \<Rightarrow> (proxy_error + response) \<times> lb_manager" where
  "proxy_http pf h clk req host ip m =
     (case lb_get m host of
        None \<Rightarrow> (Inl NoBackend, m)
      | Some lb \<Rightarrow>
          (case select clk (Some ip) lb of
             (None, lb) \<Rightarrow> (Inl AllDown, m(host \<mapsto> lb))
           | (Some (backend_url, guard), lb) \<Rightarrow>
               let lb = pf_meanwhile pf lb
               in case send_to_backend pf (ph_timeout h) backend_url req host ip of
                    Inl e \<Rightarrow> (Inl e, m(host \<mapsto> drop_guard guard lb))
                  | Inr resp \<Rightarrow>
                      (Inr resp, m(host \<mapsto> drop_guard guard (success backend_url lb)))))"

definition proxy_websocket ::
    "platform \<Rightarrow> proxy_handler \<Rightarrow> (nat \<Rightarrow> u64) \<Rightarrow> request \<Rightarrow> string \<Rightarrow> ip_addr \<Rightarrow> lb_manager
      \<Rightarrow> (proxy_error + response) \<times> lb_manager" where
  "proxy_websocket pf h clk req host ip m =
     (case lb_get m host of
        None \<Rightarrow> (Inl NoBackend, m)
      | Some lb \<Rightarrow>
          (case select clk (Some ip) lb of
             (None, lb) \<Rightarrow> (Inl AllDown, m(host \<mapsto> lb))
           | (Some (backend_url, guard), lb) \<Rightarrow>
               let m = m(host \<mapsto> drop_guard guard (pf_meanwhile pf lb))
               in case send_to_backend pf (ph_timeout h) backend_url req host ip of
                    Inl e \<Rightarrow> (Inl e, m)
                  | Inr backend_resp \<Rightarrow>
                      if resp_status backend_resp \<noteq> SWITCHING_PROTOCOLS
                      then (Inl (Rejected (resp_status backend_resp)), m)
                      else (Inr \<lparr>resp_status = SWITCHING_PROTOCOLS, resp_headers = no_headers,
                                 resp_body = empty_body\<rparr>, m)))"

section \<open>The handler\<close>

text \<open>
  \<open>Panicked\<close>: an \<^verbatim>\<open>unwrap\<close> on a response builder that refused a header, or the date of a static file.
  With the release profile of \<^verbatim>\<open>Cargo.toml\<close>, \<^verbatim>\<open>panic = "abort"\<close>, that is the end of the process, with
  the default profile of the connection's task.
\<close>

datatype handled = Reply response | Panicked

definition redirect_location :: "proxy_handler \<Rightarrow> request \<Rightarrow> string \<Rightarrow> bool \<Rightarrow> string option" where
  "redirect_location h req host is_tls =
     (if is_tls then None
      else case ph_domain_configs h host of
             None \<Rightarrow> None
           | Some cfg \<Rightarrow>
               if dc_redirect_to_https cfg
               then Some (''https://'' @ host @ request_target (rq_uri req))
               else None)"

definition redirect :: "platform \<Rightarrow> string \<Rightarrow> handled" where
  "redirect pf location =
     (if pf_header_value pf location
      then Reply \<lparr>resp_status = MOVED_PERMANENTLY,
                  resp_headers = header_append ''location'' location no_headers,
                  resp_body = empty_body\<rparr>
      else Panicked)"

definition serve_static ::
    "platform \<Rightarrow> proxy_handler \<Rightarrow> request \<Rightarrow> string \<Rightarrow> served" where
  "serve_static pf h req host =
     (case ph_static_servers h host of
        None \<Rightarrow> NotServed
      | Some sf \<Rightarrow>
          serve (pf_crates pf) (pf_fs pf) sf (uri_path (rq_uri req)) (rq_method req) (rq_headers req))"

definition handle ::
    "platform \<Rightarrow> proxy_handler \<Rightarrow> clocks \<Rightarrow> ip_addr \<Rightarrow> request \<Rightarrow> bool \<Rightarrow> proxy_state
      \<Rightarrow> handled \<times> proxy_state" where
  "handle pf h ck ip req is_tls st =
     (let path = uri_path (rq_uri req);
          query = uri_query (rq_uri req);
          host = request_host pf req;
          (allowed, rl) = is_allowed (ps_rate_limiter st) ip (ck_instant ck);
          st = st\<lparr>ps_rate_limiter := rl\<rparr>
      in if \<not> allowed then (Reply (error_response TOO_MANY_REQUESTS ''Too Many Requests''), st)
      else
        let ua = header_text pf (rq_headers req) ''user-agent''
        in case check_request (pf_lowercase pf) (ph_security h) path query ua of
             Inl reason \<Rightarrow> (Reply (html_error FORBIDDEN ''Forbidden'' reason), st)
           | Inr _ \<Rightarrow>
        (case redirect_location h req host is_tls of
           Some location \<Rightarrow> (redirect pf location, st)
         | None \<Rightarrow>
        if is_websocket_upgrade pf req then
          (let (r, m) = proxy_websocket pf h (ck_unix ck) req host ip (ps_lb_manager st);
               st = st\<lparr>ps_lb_manager := m\<rparr>
           in case r of
                Inr resp \<Rightarrow> (Reply resp, st)
              | Inl e \<Rightarrow> (Reply (error_response BAD_GATEWAY ''WebSocket proxy error''), st))
        else
        (case serve_static pf h req host of
           Served resp \<Rightarrow> (Reply (inject_extra_headers pf host (ph_domain_configs h) resp), st)
         | ServePanics \<Rightarrow> (Panicked, st)
         | NotServed \<Rightarrow>
          (let (r, m) = proxy_http pf h (ck_unix ck) req host ip (ps_lb_manager st);
               st = st\<lparr>ps_lb_manager := m\<rparr>
           in case r of
                Inr resp \<Rightarrow> (Reply (inject_extra_headers pf host (ph_domain_configs h) resp), st)
              | Inl e \<Rightarrow>
                  (Reply (html_error BAD_GATEWAY ''Bad Gateway'' ''The upstream server is unreachable.''),
                   st)))))"

end
