(* ===== verification/ProxyProps.thy ===== *)
theory ProxyProps
  imports Proxy
begin

text \<open>
  What the handler of \<^verbatim>\<open>src/src/proxy.rs\<close> promises: requests turned away by a gate reach
  neither disk nor backend, every request gives its guard back, what the backend is told about the
  client, which replies a client can see, and what the handler tells the circuit breaker.
\<close>

section \<open>The gates\<close>

text \<open>What the filter says of a request.\<close>

definition verdict :: "platform \<Rightarrow> proxy_handler \<Rightarrow> request \<Rightarrow> string + unit" where
  "verdict pf h req =
     check_request (pf_lowercase pf) (ph_security h) (uri_path (rq_uri req)) (uri_query (rq_uri req))
       (header_text pf (rq_headers req) ''user-agent'')"

text \<open>What the handler does once a request has passed the rate limiter and the filter.\<close>

definition passes :: "platform \<Rightarrow> proxy_handler \<Rightarrow> clocks \<Rightarrow> ip_addr \<Rightarrow> request \<Rightarrow> proxy_state \<Rightarrow> bool" where
  "passes pf h ck ip req st \<longleftrightarrow>
     fst (is_allowed (ps_rate_limiter st) ip (ck_instant ck)) \<and>
     verdict pf h req = Inr ()"

definition charged :: "clocks \<Rightarrow> ip_addr \<Rightarrow> proxy_state \<Rightarrow> proxy_state" where
  "charged ck ip st = st\<lparr>ps_rate_limiter := snd (is_allowed (ps_rate_limiter st) ip (ck_instant ck))\<rparr>"

lemma handle_limited:
  "\<not> fst (is_allowed (ps_rate_limiter st) ip (ck_instant ck)) \<Longrightarrow>
   handle pf h ck ip req is_tls st =
     (Reply (error_response TOO_MANY_REQUESTS ''Too Many Requests''), charged ck ip st)"
  by (simp add: handle_def charged_def case_prod_beta Let_def)

lemma handle_filtered:
  "fst (is_allowed (ps_rate_limiter st) ip (ck_instant ck)) \<Longrightarrow>
   verdict pf h req = Inl reason \<Longrightarrow>
   handle pf h ck ip req is_tls st = (Reply (html_error FORBIDDEN ''Forbidden'' reason), charged ck ip st)"
  by (simp add: handle_def charged_def verdict_def case_prod_beta Let_def)

lemma handle_passed:
  "passes pf h ck ip req st \<Longrightarrow>
   handle pf h ck ip req is_tls st =
     (let host = request_host pf req in
      case redirect_location h req host is_tls of
        Some location \<Rightarrow> (redirect pf location, charged ck ip st)
      | None \<Rightarrow>
          if is_websocket_upgrade pf req then
            (let (r, m) = proxy_websocket pf h (ck_unix ck) req host ip (ps_lb_manager st)
             in (case r of Inr resp \<Rightarrow> Reply resp
                 | Inl e \<Rightarrow> Reply (error_response BAD_GATEWAY ''WebSocket proxy error''),
                 (charged ck ip st)\<lparr>ps_lb_manager := m\<rparr>))
          else case serve_static pf h req host of
                 Served resp \<Rightarrow> (Reply (inject_extra_headers pf host (ph_domain_configs h) resp), charged ck ip st)
               | ServePanics \<Rightarrow> (Panicked, charged ck ip st)
               | NotServed \<Rightarrow>
                   (let (r, m) = proxy_http pf h (ck_unix ck) req host ip (ps_lb_manager st)
                    in (case r of
                          Inr resp \<Rightarrow> Reply (inject_extra_headers pf host (ph_domain_configs h) resp)
                        | Inl e \<Rightarrow> Reply (html_error BAD_GATEWAY ''Bad Gateway''
                                     ''The upstream server is unreachable.''),
                        (charged ck ip st)\<lparr>ps_lb_manager := m\<rparr>)))"
  by (simp add: handle_def passes_def verdict_def charged_def case_prod_beta Let_def
      split: sum.split option.split served.split)

lemma gate_cases:
  obtains (limited) "\<not> fst (is_allowed (ps_rate_limiter st) ip (ck_instant ck))"
  | (filtered) reason where "fst (is_allowed (ps_rate_limiter st) ip (ck_instant ck))"
      "verdict pf h req = Inl reason"
  | (passed) "passes pf h ck ip req st"
  by (cases "fst (is_allowed (ps_rate_limiter st) ip (ck_instant ck))"; cases "verdict pf h req")
    (auto simp: passes_def)

text \<open>The platform with other backends and another disk.\<close>

definition elsewhere ::
    "platform \<Rightarrow> (u64 \<Rightarrow> string \<Rightarrow> request \<Rightarrow> exchange) \<Rightarrow> file_system \<Rightarrow> platform" where
  "elsewhere pf up fs = pf\<lparr>pf_upstream := up, pf_fs := fs\<rparr>"

lemma elsewhere_simps [simp]:
  "pf_lowercase (elsewhere pf up fs) = pf_lowercase pf" "pf_header_value (elsewhere pf up fs) = pf_header_value pf"
  "header_text (elsewhere pf up fs) = header_text pf" "request_host (elsewhere pf up fs) = request_host pf"
  "redirect (elsewhere pf up fs) = redirect pf"
  "verdict (elsewhere pf up fs) = verdict pf" "passes (elsewhere pf up fs) = passes pf"
  by (auto simp: elsewhere_def header_text_def request_host_def redirect_def passes_def verdict_def fun_eq_iff)

text \<open>
  C22: The gates come first: a request that is over the rate limit gets 429, one the filter
  refuses 403, one to be redirected 301 (in this order of precedence), no balancer is touched,
  and the answer does not depend on any backend or any file.
\<close>

theorem gates_come_first:
  assumes "\<not> passes pf h ck ip req st \<or> redirect_location h req (request_host pf req) is_tls \<noteq> None"
  shows "ps_lb_manager (snd (handle pf h ck ip req is_tls st)) = ps_lb_manager st \<and>
    handle (elsewhere pf up fs) h ck ip req is_tls st = handle pf h ck ip req is_tls st \<and>
    (\<forall>r. fst (handle pf h ck ip req is_tls st) = Reply r \<longrightarrow>
       resp_status r =
         (if \<not> fst (is_allowed (ps_rate_limiter st) ip (ck_instant ck)) then 429
          else if \<not> passes pf h ck ip req st then 403 else 301))"
proof (cases rule: gate_cases [where st = st and ip = ip and ck = ck and pf = pf and h = h and req = req])
  case limited
  then show ?thesis by (simp add: handle_limited charged_def status_defs)
next
  case (filtered reason)
  then show ?thesis
    using handle_filtered [of st ip ck "elsewhere pf up fs"]
    by (simp add: handle_filtered charged_def status_defs passes_def)
next
  case passed
  then obtain location where loc: "redirect_location h req (request_host pf req) is_tls = Some location"
    using assms by blast
  have "fst (is_allowed (ps_rate_limiter st) ip (ck_instant ck))" using passed by (simp add: passes_def)
  then show ?thesis
    using passed loc handle_passed [of "elsewhere pf up fs"]
    by (auto simp: handle_passed Let_def charged_def redirect_def status_defs split: if_splits)
qed

text \<open>A platform for the examples: every backend answers as given, every header is fine.\<close>

definition test_uri :: "string \<Rightarrow> uri" where
  "test_uri s =
     \<lparr>uri_path = s, uri_query = None, uri_path_and_query = Some s, uri_host = Some ''b'', uri_port = Some 8080\<rparr>"

definition test_platform :: "exchange \<Rightarrow> platform" where
  "test_platform x =
     \<lparr>pf_crates = plain_crates, pf_lowercase = ascii_lower, pf_parse_uri = \<lambda>s. Some (test_uri s),
      pf_header_name = Some, pf_header_value = \<lambda>_. True, pf_fs = site [], pf_upstream = \<lambda>_ _ _. x,
      pf_meanwhile = \<lambda>lb. lb\<rparr>"

definition test_domain :: domain_config where
  "test_domain =
     \<lparr>dc_backends = [''http://b:8080''], dc_load_balance = RoundRobin, dc_tls = None,
      dc_static_files = None, dc_redirect_to_https = False,
      dc_health_check = health_check_default, dc_headers = [\<lparr>eh_name = ''x-frame'', eh_value = ''deny''\<rparr>]\<rparr>"

definition test_handler :: proxy_handler where
  "test_handler =
     proxy_handler_new (security_checker_new 10 security_flags_default) 30 [(''d'', test_domain)]"

definition test_state :: proxy_state where
  "test_state =
     \<lparr>ps_rate_limiter = rate_limiter_new 0 0, ps_lb_manager = [''d'' \<mapsto> load_balancer_new test_domain]\<rparr>"

definition test_clocks :: clocks where
  "test_clocks = \<lparr>ck_instant = 0, ck_unix = \<lambda>_. 0\<rparr>"

definition get_request_for :: "string \<Rightarrow> header_map \<Rightarrow> request" where
  "get_request_for path hs =
     \<lparr>rq_method = GET, rq_uri = test_uri path, rq_headers = header_insert ''host'' ''D:80'' hs, rq_body = []\<rparr>"

lemmas test_defs = test_platform_def test_domain_def test_handler_def test_state_def test_clocks_def
  get_request_for_def test_uri_def proxy_handler_new_def plain_crates_def

lemma test_host: "request_host (test_platform x) (get_request_for path hs) = ''d''"
  by (simp add: request_host_def header_text_def test_defs split_first_def ascii_lower_def ascii_lower_char_def
      char_of_def bit_0)

lemma test_allowed: "is_allowed (ps_rate_limiter test_state) ip t = (True, ps_rate_limiter test_state)"
  by (simp add: is_allowed_def test_state_def rate_limiter_new_def u32_as_f64_def)

lemma test_verdict:
  "verdict (test_platform x) test_handler (get_request_for ''/a'' hs) = Inr ()"
  "verdict (test_platform x) test_handler (get_request_for ''/../a'' hs) = Inl ''Path traversal attempt''"
  by (simp_all add: verdict_def check_request_def test_defs security_checker_new_def
      security_flags_default_def target_of_def ascii_lower_def ascii_lower_char_def traversal_def
      sqli_patterns_def xss_patterns_def apostrophe_def)

theorem gates_come_first_witness:
  "resp_status (case fst (handle (test_platform ConnectError) test_handler test_clocks (V4 1)
     (get_request_for ''/../a'' no_headers) True test_state) of Reply r \<Rightarrow> r | Panicked \<Rightarrow> undefined) = 403"
proof -
  let ?req = "get_request_for ''/../a'' no_headers"
  have no: "\<not> passes (test_platform ConnectError) test_handler test_clocks (V4 1) ?req test_state"
    by (simp add: passes_def test_verdict)
  have "fst (handle (test_platform ConnectError) test_handler test_clocks (V4 1) ?req True test_state) =
      Reply (html_error FORBIDDEN ''Forbidden'' ''Path traversal attempt'')"
    by (simp add: handle_filtered test_allowed test_verdict)
  then show ?thesis
    using gates_come_first [of "test_platform ConnectError" test_handler test_clocks "V4 1" ?req
        test_state True] no test_allowed by simp
qed

section \<open>Guards\<close>

text \<open>Both ways to a backend end in the same states of the balancer.\<close>

lemma proxy_lb:
  assumes "lb_get m host = Some lb"
  shows "(\<exists>lb0. select clk (Some ip) lb = (None, lb0) \<and>
            snd (proxy_http pf h clk req host ip m) = m(host \<mapsto> lb0) \<and>
            snd (proxy_websocket pf h clk req host ip m) = m(host \<mapsto> lb0)) \<or>
    (\<exists>url g lb0. select clk (Some ip) lb = (Some (url, g), lb0) \<and>
       snd (proxy_http pf h clk req host ip m) \<in>
         {m(host \<mapsto> drop_guard g (pf_meanwhile pf lb0)),
          m(host \<mapsto> drop_guard g (success url (pf_meanwhile pf lb0)))} \<and>
       snd (proxy_websocket pf h clk req host ip m) = m(host \<mapsto> drop_guard g (pf_meanwhile pf lb0)))"
proof (cases "select clk (Some ip) lb")
  case (Pair r lb0)
  show ?thesis
  proof (cases r)
    case None
    with Pair assms show ?thesis by (simp add: proxy_http_def proxy_websocket_def)
  next
    case (Some x)
    obtain url g where "x = (url, g)" by (cases x)
    with Pair Some assms show ?thesis
      by (simp add: proxy_http_def proxy_websocket_def Let_def split: sum.splits)
  qed
qed


text \<open>Feedback leaves the accounting of guards alone.\<close>

lemma lb_active_success [simp]: "lb_active (success url lb) = lb_active lb"
  by (rule lb_active_cong) (simp add: feedback_frame)

lemma handle_lb:
  assumes "lb_get (ps_lb_manager st) (request_host pf req) = Some lb"
  obtains (same) "lb_get (ps_lb_manager (snd (handle pf h ck ip req is_tls st))) (request_host pf req) = Some lb"
  | (none) lb0 where "select (ck_unix ck) (Some ip) lb = (None, lb0)"
      "lb_get (ps_lb_manager (snd (handle pf h ck ip req is_tls st))) (request_host pf req) = Some lb0"
  | (used) url g lb0 lb' where "select (ck_unix ck) (Some ip) lb = (Some (url, g), lb0)"
      "lb' \<in> {pf_meanwhile pf lb0, success url (pf_meanwhile pf lb0)}"
      "lb_get (ps_lb_manager (snd (handle pf h ck ip req is_tls st))) (request_host pf req)
         = Some (drop_guard g lb')"
proof -
  let ?m = "ps_lb_manager (snd (handle pf h ck ip req is_tls st))"
  let ?host = "request_host pf req"
  have m: "?m = ps_lb_manager st \<or>
      ?m = snd (proxy_http pf h (ck_unix ck) req ?host ip (ps_lb_manager st)) \<or>
      ?m = snd (proxy_websocket pf h (ck_unix ck) req ?host ip (ps_lb_manager st))"
  proof (cases rule: gate_cases [where st = st and ip = ip and ck = ck and pf = pf and h = h and req = req])
    case passed
    then show ?thesis
      by (simp add: handle_passed Let_def case_prod_beta charged_def split: option.split served.split)
  qed (simp_all add: handle_limited handle_filtered charged_def)
  from proxy_lb [OF assms, where clk = "ck_unix ck" and ip = ip and pf = pf and h = h and req = req]
  show thesis
  proof (elim disjE exE conjE)
    fix lb0
    assume sel: "select (ck_unix ck) (Some ip) lb = (None, lb0)"
      and "snd (proxy_http pf h (ck_unix ck) req ?host ip (ps_lb_manager st)) = (ps_lb_manager st)(?host \<mapsto> lb0)"
      and "snd (proxy_websocket pf h (ck_unix ck) req ?host ip (ps_lb_manager st)) = (ps_lb_manager st)(?host \<mapsto> lb0)"
    with m have "?m = ps_lb_manager st \<or> ?m = (ps_lb_manager st)(?host \<mapsto> lb0)" by auto
    then show thesis using same none [OF sel] assms by (auto simp: lb_get_def)
  next
    fix url g lb0
    assume sel: "select (ck_unix ck) (Some ip) lb = (Some (url, g), lb0)"
      and "snd (proxy_http pf h (ck_unix ck) req ?host ip (ps_lb_manager st)) \<in>
         {(ps_lb_manager st)(?host \<mapsto> drop_guard g (pf_meanwhile pf lb0)),
          (ps_lb_manager st)(?host \<mapsto> drop_guard g (success url (pf_meanwhile pf lb0)))}"
      and "snd (proxy_websocket pf h (ck_unix ck) req ?host ip (ps_lb_manager st)) =
         (ps_lb_manager st)(?host \<mapsto> drop_guard g (pf_meanwhile pf lb0))"
    with m have "?m = ps_lb_manager st \<or>
        ?m = (ps_lb_manager st)(?host \<mapsto> drop_guard g (pf_meanwhile pf lb0)) \<or>
        ?m = (ps_lb_manager st)(?host \<mapsto> drop_guard g (success url (pf_meanwhile pf lb0)))" by auto
    then show thesis
      using same used [OF sel, of "pf_meanwhile pf lb0"]
        used [OF sel, of "success url (pf_meanwhile pf lb0)"] assms
      by (elim disjE) (simp_all add: lb_get_def)
  qed
qed

text \<open>
  C14: Every request gives its guard back, on every path through the handler: if the active counts
  of a balancer are the guards \<open>G\<close> of the other requests, and those do what they like while this
  request waits (selections, ends of requests, outcomes), then afterwards the active counts are
  again the guards of the others alone.
\<close>

theorem request_returns_its_guard:
  assumes "lb_get (ps_lb_manager st) (request_host pf req) = Some lb" and "lb_active lb = count G"
    and "pf_meanwhile pf = (\<lambda>lb. fst (lb_run (lb, G) others))"
    and "size G + length others + 1 < 2 ^ 64"
  shows "\<exists>lb' G'. lb_get (ps_lb_manager (snd (handle pf h ck ip req is_tls st))) (request_host pf req) = Some lb' \<and>
    lb_active lb' = count G' \<and>
    (G' = G \<or> (\<exists>lb0. fst (select (ck_unix ck) (Some ip) lb) \<noteq> None \<and>
       lb0 = snd (select (ck_unix ck) (Some ip) lb) \<and> G' = snd (lb_run (lb0, G) others)))"
  using assms(1)
proof (cases rule: handle_lb [where h = h and ck = ck and ip = ip and is_tls = is_tls])
  case same
  with assms(2) show ?thesis by blast
next
  case (none lb0)
  have "guards.tracks lb G" using assms(2) by (simp add: guards.tracks_def fun_eq_iff)
  from select_tracks [OF this _ none(1)] assms(4) have "lb_active lb0 = count G"
    by (simp add: guards.tracks_def fun_eq_iff)
  with none(2) show ?thesis by blast
next
  case (used url g lb0 lb')
  let ?G = "snd (lb_run (lb0, G) others)"
  have "guards.tracks lb G" using assms(2) by (simp add: guards.tracks_def fun_eq_iff)
  from select_tracks [OF this _ used(1)] assms(4) have "guards.tracks lb0 (G + {#g#})" by simp
  then have "guards.tracks (pf_meanwhile pf lb0) (?G + {#g#})"
    using lb_run_tracks [of "(lb0, G)" "{#g#}" others] assms(3,4) by simp
  then have "guards.tracks lb' (?G + {#g#})"
    using used(2) by (auto simp: guards.tracks_def)
  then have "lb_active (drop_guard g lb') = count ?G"
    using guards.tracks_rel [of lb' "?G + {#g#}" g] by (simp add: guards.tracks_def fun_eq_iff)
  then show ?thesis using used(1,3) by auto
qed


theorem request_returns_its_guard_witness:
  "\<exists>lb'. lb_get (ps_lb_manager (snd (handle (test_platform ConnectTimeout) test_handler test_clocks (V4 1)
       (get_request_for ''/a'' no_headers) True test_state))) ''d'' = Some lb' \<and> lb_active lb' 0 = 0"
proof -
  let ?req = "get_request_for ''/a'' no_headers"
  have lb: "lb_get (ps_lb_manager test_state) (request_host (test_platform ConnectTimeout) ?req) =
      Some (load_balancer_new test_domain)"
    by (simp add: test_host test_state_def lb_get_def)
  have none: "lb_active (load_balancer_new test_domain) = count {#}"
    by (auto simp: lb_active_def load_balancer_new_def test_domain_def backend_new_def fun_eq_iff)
  have alone: "pf_meanwhile (test_platform ConnectTimeout) = (\<lambda>lb. fst (lb_run (lb, {#}) []))"
    by (simp add: test_platform_def fun_eq_iff)
  from request_returns_its_guard [OF lb none alone, of test_handler test_clocks "V4 1" True]
  show ?thesis by (auto simp: test_host)
qed

section \<open>What the backend is told\<close>

text \<open>
  The backend always learns the address of the direct peer: \<^verbatim>\<open>X-Real-IP\<close> is that address
  alone, whatever the client sent; \<^verbatim>\<open>X-Forwarded-For\<close> is one line that ends with it, after the
  first line the client sent (further lines are dropped); \<^verbatim>\<open>X-Forwarded-Host\<close> is the host when
  there is one and else what the client sent; every other header is passed on unchanged.
\<close>

theorem forwarded_headers:
  assumes "pf_header_value pf (show_ip ip)"
    and "\<forall>e. header_text pf hs ''x-forwarded-for'' = Some e \<longrightarrow> pf_header_value pf (e @ '', '' @ show_ip ip)"
  shows "add_forwarding_headers pf ip host hs ''x-real-ip'' = [show_ip ip] \<and>
    add_forwarding_headers pf ip host hs ''x-forwarded-for'' =
      [(case header_text pf hs ''x-forwarded-for'' of None \<Rightarrow> [] | Some e \<Rightarrow> e @ '', '') @ show_ip ip] \<and>
    add_forwarding_headers pf ip host hs ''x-forwarded-host'' =
      (if host \<noteq> [] \<and> pf_header_value pf host then [host] else hs ''x-forwarded-host'') \<and>
    (\<forall>n. n \<notin> {''x-real-ip'', ''x-forwarded-for'', ''x-forwarded-host''} \<longrightarrow>
       add_forwarding_headers pf ip host hs n = hs n)"
  using assms
  by (auto simp: add_forwarding_headers_def value_or_empty_def Let_def split: option.splits)

theorem forwarded_headers_witness:
  "add_forwarding_headers (test_platform ConnectError) (V4 0) ''d''
     (header_insert ''x-real-ip'' ''6.6.6.6'' no_headers) ''x-real-ip'' = [''0.0.0.0'']"
proof -
  have "show_ip (V4 0) = ''0.0.0.0''"
    by (simp add: show_ip_def show_v4_def show_nat.simps digit_char_def char_of_def bit_0)
  then show ?thesis
    using forwarded_headers [of "test_platform ConnectError" "V4 0"
        "header_insert ''x-real-ip'' ''6.6.6.6'' no_headers" "''d''"]
    by (simp add: test_platform_def)
qed

section \<open>What the client sees\<close>

lemma send_to_backend_Inr:
  "send_to_backend pf limit url req host ip = Inr resp \<Longrightarrow>
   \<exists>addr rq. pf_upstream pf limit addr rq = Responds resp"
  by (auto simp: send_to_backend_def Let_def split: option.splits exchange.splits)

lemma proxy_http_Inr:
  "fst (proxy_http pf h clk req host ip m) = Inr resp \<Longrightarrow>
   \<exists>addr rq. pf_upstream pf (ph_timeout h) addr rq = Responds resp"
  by (auto simp: proxy_http_def Let_def dest: send_to_backend_Inr
      split: option.splits prod.splits sum.splits)

lemma serve_index_panics:
  "serve_index cr fs dir method hs idxs = Some ServePanics \<Longrightarrow> \<exists>p. serve_file cr fs p method hs = ServePanics"
  by (induction idxs) (auto simp: Let_def split: if_splits)

lemma serve_static_panics:
  assumes "serve_static pf h req host = ServePanics"
  shows "rq_method req = GET \<and> (\<exists>p meta t. fs_metadata (pf_fs pf) p = Some meta \<and>
    fs_read (pf_fs pf) p \<noteq> None \<and> fm_modified meta = Some t \<and> fmt_http_date (pf_crates pf) t = None)"
proof -
  obtain p where p: "serve_file (pf_crates pf) (pf_fs pf) p (rq_method req) (rq_headers req) = ServePanics"
    and "rq_method req = GET \<or> rq_method req = HEAD"
    using assms
    by (auto simp: serve_static_def serve_def split: option.splits if_splits dest!: serve_index_panics)
  then show ?thesis by (auto simp: serve_file_panics)
qed

text \<open>
  C23: The reply is one of these and nothing else: the 429 page, a 403 page, a redirect, a bare
  101, a 502 page, or a static or backend response with the domain's extra headers. The handler
  panics in two cases only: on a redirect whose location cannot be a header value, and on a static
  file whose time of modification has no HTTP date.
\<close>

theorem reply_classes:
  "case fst (handle pf h ck ip req is_tls st) of
     Panicked \<Rightarrow>
       (\<exists>loc. redirect_location h req (request_host pf req) is_tls = Some loc \<and> \<not> pf_header_value pf loc) \<or>
       (rq_method req = GET \<and> (\<exists>p meta t. fs_metadata (pf_fs pf) p = Some meta \<and> fs_read (pf_fs pf) p \<noteq> None \<and>
          fm_modified meta = Some t \<and> fmt_http_date (pf_crates pf) t = None))
   | Reply r \<Rightarrow>
       r = error_response TOO_MANY_REQUESTS ''Too Many Requests'' \<or>
       (\<exists>reason. verdict pf h req = Inl reason \<and> r = html_error FORBIDDEN ''Forbidden'' reason) \<or>
       (\<exists>loc. redirect_location h req (request_host pf req) is_tls = Some loc \<and> redirect pf loc = Reply r) \<or>
       (is_websocket_upgrade pf req \<and>
          (r = \<lparr>resp_status = SWITCHING_PROTOCOLS, resp_headers = no_headers, resp_body = empty_body\<rparr> \<or>
           r = error_response BAD_GATEWAY ''WebSocket proxy error'')) \<or>
       r = html_error BAD_GATEWAY ''Bad Gateway'' ''The upstream server is unreachable.'' \<or>
       (\<exists>resp. r = inject_extra_headers pf (request_host pf req) (ph_domain_configs h) resp \<and>
          (serve_static pf h req (request_host pf req) = Served resp \<or>
           (\<exists>addr rq. pf_upstream pf (ph_timeout h) addr rq = Responds resp)))"
proof (cases rule: gate_cases [where st = st and ip = ip and ck = ck and pf = pf and h = h and req = req])
  case passed
  let ?host = "request_host pf req" and ?m = "ps_lb_manager st"
  have bare: "fst (proxy_websocket pf h (ck_unix ck) req ?host ip ?m) = Inr r \<Longrightarrow>
      r = \<lparr>resp_status = SWITCHING_PROTOCOLS, resp_headers = no_headers, resp_body = empty_body\<rparr>" for r
    by (auto simp: proxy_websocket_def Let_def split: option.splits prod.splits sum.splits if_splits)
  consider (redirect) loc where "redirect_location h req ?host is_tls = Some loc"
    | (ws) "redirect_location h req ?host is_tls = None" "is_websocket_upgrade pf req"
    | (static) resp where "redirect_location h req ?host is_tls = None" "\<not> is_websocket_upgrade pf req"
        "serve_static pf h req ?host = Served resp"
    | (panic) "redirect_location h req ?host is_tls = None" "\<not> is_websocket_upgrade pf req"
        "serve_static pf h req ?host = ServePanics"
    | (http) "redirect_location h req ?host is_tls = None" "\<not> is_websocket_upgrade pf req"
        "serve_static pf h req ?host = NotServed" by (cases "serve_static pf h req ?host") auto
  then show ?thesis
  proof cases
    case (redirect loc)
    then show ?thesis
      using passed by (auto simp: handle_passed Let_def redirect_def)
  next
    case ws
    then show ?thesis
      using passed by (auto simp: handle_passed Let_def case_prod_beta split: sum.splits dest!: bare)
  next
    case (static resp)
    then show ?thesis using passed by (auto simp: handle_passed Let_def)
  next
    case panic
    from serve_static_panics [OF this(3)] show ?thesis using passed panic by (simp add: handle_passed Let_def)
  next
    case http
    then show ?thesis
      using passed proxy_http_Inr [of pf h "ck_unix ck" req ?host ip ?m]
      by (auto simp: handle_passed Let_def case_prod_beta split: sum.splits)
  qed
qed (auto simp: handle_limited handle_filtered)

text \<open>
  C37: A file can crash the handler: the plain \<^verbatim>\<open>GET\<close> of a readable static file panics exactly when
  the formatter has no date for the time of modification, for which a file older than 1970 is enough.
\<close>

theorem plain_get_panics_iff:
  assumes "passes pf h ck ip req st" and "redirect_location h req (request_host pf req) is_tls = None"
    and "\<not> is_websocket_upgrade pf req" and "ph_static_servers h (request_host pf req) = Some sf"
    and "rq_method req = GET" and "safe_path (pf_crates pf) sf (uri_path (rq_uri req)) = Some p"
    and "fs_metadata (pf_fs pf) p = Some meta" and "\<not> fm_is_dir meta" and "fs_read (pf_fs pf) p = Some data"
    and "header_get (rq_headers req) ''if-none-match'' = None"
    and "header_get (rq_headers req) ''if-modified-since'' = None"
  shows "fst (handle pf h ck ip req is_tls st) = Panicked \<longleftrightarrow>
    (\<exists>t. fm_modified meta = Some t \<and> fmt_http_date (pf_crates pf) t = None)"
proof -
  have "serve_static pf h req (request_host pf req) =
      serve_file (pf_crates pf) (pf_fs pf) p GET (rq_headers req)"
    using assms(4-8) by (simp add: serve_static_def serve_def)
  moreover have "serve_file (pf_crates pf) (pf_fs pf) p GET (rq_headers req) = ServePanics \<longleftrightarrow>
      (\<exists>t. fm_modified meta = Some t \<and> fmt_http_date (pf_crates pf) t = None)"
    using assms(7,9-11) by (simp add: serve_file_panics etag_matches_def unmodified_since_def)
  moreover have "serve_file (pf_crates pf) (pf_fs pf) p GET (rq_headers req) \<noteq> NotServed"
    using assms(7,9) by (auto simp: serve_file_def Let_def split: option.split)
  ultimately show ?thesis
    using assms(1-3) by (auto simp: handle_passed Let_def split: served.split)
qed

definition old_site :: file_system where
  "old_site =
     \<lparr>fs_metadata = \<lambda>_. Some \<lparr>fm_is_dir = False, fm_len = 4, fm_modified = Some (-1)\<rparr>,
      fs_read = \<lambda>_. Some ''text'', fs_read_dir = \<lambda>_. None\<rparr>"

theorem plain_get_panics_iff_witness:
  "fst (handle (elsewhere (test_platform ConnectError) (\<lambda>_ _ _. ConnectError) old_site)
      (test_handler\<lparr>ph_static_servers := [''d'' \<mapsto> static_server_new ''/w'' [] False]\<rparr>) test_clocks (V4 1)
      (get_request_for ''/a'' no_headers) True test_state) = Panicked"
proof -
  let ?pf = "elsewhere (test_platform ConnectError) (\<lambda>_ _ _. ConnectError) old_site"
  let ?sf = "static_server_new ''/w'' [] False"
  let ?h = "test_handler\<lparr>ph_static_servers := [''d'' \<mapsto> ?sf]\<rparr>"
  let ?req = "get_request_for ''/a'' no_headers"
  let ?meta = "\<lparr>fm_is_dir = False, fm_len = 4, fm_modified = Some (-1)\<rparr>"
  have "verdict ?pf ?h ?req = Inr ()"
    using test_verdict(1) [of ConnectError no_headers] by (simp add: verdict_def)
  then have passes: "passes ?pf ?h test_clocks (V4 1) ?req test_state"
    by (simp add: passes_def test_allowed)
  have host: "request_host ?pf ?req = ''d''" by (simp add: test_host)
  have path: "safe_path (pf_crates ?pf) ?sf (uri_path (rq_uri ?req)) =
      Some [RootDir, Normal ''w'', Normal ''a'']"
    by (simp add: elsewhere_def test_defs safe_path_def static_server_new_def components_def
        part_component_def starts_with_def split_first_def push_part_def path_starts_with_def)
  have "fst (handle ?pf ?h test_clocks (V4 1) ?req True test_state) = Panicked \<longleftrightarrow>
      (\<exists>t. fm_modified ?meta = Some t \<and> fmt_http_date (pf_crates ?pf) t = None)"
  proof (rule plain_get_panics_iff [OF passes _ _ _ _ path])
    show "\<not> is_websocket_upgrade ?pf ?req"
      by (simp add: is_websocket_upgrade_def header_text_def elsewhere_def test_defs
          eq_ignore_ascii_case_def ascii_lower_def)
    show "ph_static_servers ?h (request_host ?pf ?req) = Some ?sf" unfolding host by simp
    show "fs_metadata (pf_fs ?pf) [RootDir, Normal ''w'', Normal ''a''] = Some ?meta"
      "fs_read (pf_fs ?pf) [RootDir, Normal ''w'', Normal ''a''] = Some ''text''"
      by (simp_all add: elsewhere_def old_site_def)
  qed (simp_all add: redirect_location_def get_request_for_def)
  then show ?thesis by (simp add: elsewhere_def test_platform_def plain_crates_def)
qed

text \<open>
  The reply to a WebSocket handshake that the backend accepts is a 101 with no headers at
  all: neither \<^verbatim>\<open>Upgrade\<close> nor \<^verbatim>\<open>Sec-WebSocket-Accept\<close> of the backend's answer is passed on.
\<close>

theorem websocket_reply_is_bare:
  assumes "fst (proxy_websocket pf h clk req host ip m) = Inr resp"
  shows "resp_status resp = 101 \<and> (\<forall>n. header_get (resp_headers resp) n = None) \<and>
    (\<exists>addr rq br. pf_upstream pf (ph_timeout h) addr rq = Responds br \<and> resp_status br = 101)"
  using assms
  by (auto simp: proxy_websocket_def Let_def status_defs dest!: send_to_backend_Inr
      split: option.splits prod.splits sum.splits if_splits)

definition accepts :: exchange where
  "accepts = Responds \<lparr>resp_status = 101,
     resp_headers = header_insert ''sec-websocket-accept'' ''key'' no_headers, resp_body = []\<rparr>"

lemma test_select:
  "select clk ip (load_balancer_new test_domain) =
     (Some (''http://b:8080'', 0),
      take_guard 0 ((load_balancer_new test_domain)\<lparr>lb_cursor := 1\<rparr>))"
  by (simp add: select_round_robin all_closed_def load_balancer_new_def test_domain_def
      backend_new_def take_guard_def)

theorem websocket_reply_is_bare_witness:
  "\<exists>resp. fst (proxy_websocket (test_platform accepts) test_handler (\<lambda>_. 0)
       (get_request_for ''/a'' no_headers) ''d'' (V4 1) (ps_lb_manager test_state)) = Inr resp \<and>
     header_get (resp_headers resp) ''sec-websocket-accept'' = None"
proof -
  have "\<exists>resp. fst (proxy_websocket (test_platform accepts) test_handler (\<lambda>_. 0)
       (get_request_for ''/a'' no_headers) ''d'' (V4 1) (ps_lb_manager test_state)) = Inr resp"
    by (simp add: proxy_websocket_def test_state_def lb_get_def test_select send_to_backend_def
        test_platform_def accepts_def Let_def status_defs)
  then show ?thesis using websocket_reply_is_bare by blast
qed

section \<open>What the circuit breaker is told\<close>

text \<open>\<open>b'\<close> is \<open>b\<close> after traffic that recorded no failure.\<close>

definition no_worse :: "backend \<Rightarrow> backend \<Rightarrow> bool" where
  "no_worse b b' \<longleftrightarrow>
     b_url b' = b_url b \<and> b_last_failure b' = b_last_failure b \<and>
     (b_failures b' = b_failures b \<or> b_failures b' = 0) \<and> (b_circuit_open b' \<longrightarrow> b_circuit_open b)"

lemma no_worse_refl [simp]: "no_worse b b"
  by (simp add: no_worse_def)

lemma no_worse_trans: "no_worse a b \<Longrightarrow> no_worse b c \<Longrightarrow> no_worse a c"
  by (auto simp: no_worse_def)

lemma no_worse_probe: "no_worse b (snd (is_healthy t b))"
  by (simp add: no_worse_def is_healthy_def Let_def)

lemma no_worse_ops [simp]:
  "no_worse b (acquire b)" "no_worse b (release b)" "no_worse b (record_success b)"
  by (simp_all add: no_worse_def acquire_def release_def record_success_def)

definition lb_no_worse :: "load_balancer \<Rightarrow> load_balancer \<Rightarrow> bool" where
  "lb_no_worse lb lb' \<longleftrightarrow> list_all2 no_worse (lb_backends lb) (lb_backends lb')"

lemma lb_no_worse_trans: "lb_no_worse a b \<Longrightarrow> lb_no_worse b c \<Longrightarrow> lb_no_worse a c"
  unfolding lb_no_worse_def using list_all2_trans [of no_worse no_worse no_worse] no_worse_trans by blast

lemma list_all2_update:
  "(\<And>b. P b b) \<Longrightarrow> P (bs ! i) b' \<Longrightarrow> list_all2 P bs (bs[i := b'])"
  by (cases "i < length bs")
    (auto simp: list_all2_conv_all_nth nth_list_update list_update_beyond)

lemma lb_no_worse_update: "(\<And>b. no_worse b (f b)) \<Longrightarrow> lb_no_worse lb (update_backend i f lb)"
  by (simp add: lb_no_worse_def update_backend_def list_all2_update)

lemma lb_no_worse_success: "lb_no_worse lb (success url lb)"
proof -
  have "list_all2 no_worse bs (on_url url record_success bs)" for bs
    by (induction bs) (auto simp: list_all2_refl)
  then show ?thesis by (simp add: lb_no_worse_def success_def)
qed

lemma walk_no_worse: "list_all2 no_worse bs (snd (hp.walk clk i js bs))"
proof (cases "fst (hp.walk clk i js bs)")
  case None
  then show ?thesis by (simp add: hp.walk_None_same list_all2_refl)
next
  case (Some j)
  then obtain k where "snd (hp.walk clk i js bs) = bs[j := snd (is_healthy (clk (i + k)) (bs ! j))]"
    by (rule hp.walk_Some)
  then show ?thesis by (simp add: list_all2_update no_worse_probe)
qed

lemma lb_no_worse_pick: "lb_no_worse lb (snd (pick clk ip lb))"
  using walk_no_worse [of "lb_backends lb"]
  by (simp add: lb_no_worse_def pick_defs rr_loop_walk ih_loop_walk case_prod_beta Let_def
      list_all2_conv_all_nth lc_loop_backends no_worse_probe split: load_balance.splits)

lemma lb_no_worse_select: "lb_no_worse lb (snd (select clk ip lb))"
  using lb_no_worse_pick [of lb clk ip] lb_no_worse_trans [OF lb_no_worse_pick lb_no_worse_update]
  by (auto simp: select_pick lb_no_worse_def list_all2_refl split: option.splits)

text \<open>
  Traffic never opens a circuit: whatever becomes of a request at its backend, timeouts and
  refused connections included, no failure is recorded; the failure count of each backend stays or
  is cleared and only circuits that were open before are open after.
\<close>

theorem traffic_never_opens_circuit:
  assumes "lb_get (ps_lb_manager st) (request_host pf req) = Some lb" and "pf_meanwhile pf = (\<lambda>lb. lb)"
  shows "\<exists>lb'. lb_get (ps_lb_manager (snd (handle pf h ck ip req is_tls st))) (request_host pf req) = Some lb' \<and>
    list_all2 (\<lambda>b b'. b_url b' = b_url b \<and> b_last_failure b' = b_last_failure b \<and>
        (b_failures b' = b_failures b \<or> b_failures b' = 0) \<and> (b_circuit_open b' \<longrightarrow> b_circuit_open b))
      (lb_backends lb) (lb_backends lb')"
proof -
  have "\<exists>lb'. lb_get (ps_lb_manager (snd (handle pf h ck ip req is_tls st))) (request_host pf req) = Some lb' \<and>
      lb_no_worse lb lb'"
    using assms(1)
  proof (cases rule: handle_lb [where h = h and ck = ck and ip = ip and is_tls = is_tls])
    case same
    then show ?thesis by (auto simp: lb_no_worse_def list_all2_refl)
  next
    case (none lb0)
    then show ?thesis using lb_no_worse_select [of lb "ck_unix ck" "Some ip"] by auto
  next
    case (used url g lb0 lb')
    have "lb_no_worse lb lb0" using used(1) lb_no_worse_select [of lb "ck_unix ck" "Some ip"] by simp
    moreover have "lb_no_worse lb0 lb'"
      using used(2) lb_no_worse_success by (auto simp: assms(2) lb_no_worse_def list_all2_refl)
    moreover have "lb_no_worse lb' (drop_guard g lb')"
      by (simp add: drop_guard_def lb_no_worse_update)
    ultimately show ?thesis using used(3) lb_no_worse_trans by blast
  qed
  then show ?thesis unfolding lb_no_worse_def no_worse_def .
qed

theorem traffic_never_opens_circuit_witness:
  "\<exists>lb'. lb_get (ps_lb_manager (snd (handle (test_platform ConnectError) test_handler test_clocks (V4 1)
       (get_request_for ''/a'' no_headers) True test_state))) ''d'' = Some lb' \<and>
     map b_failures (lb_backends lb') = [0]"
proof -
  have lb: "lb_get (ps_lb_manager test_state)
      (request_host (test_platform ConnectError) (get_request_for ''/a'' no_headers)) =
      Some (load_balancer_new test_domain)"
    by (simp add: test_host test_state_def lb_get_def)
  have alone: "pf_meanwhile (test_platform ConnectError) = (\<lambda>lb. lb)" by (simp add: test_platform_def)
  from traffic_never_opens_circuit [OF lb alone, of test_handler test_clocks "V4 1" True]
  show ?thesis
    by (auto simp: test_host load_balancer_new_def test_domain_def backend_new_def list_all2_Cons1)
qed

end
