(* ===== verification/Requests.thy ===== *)
theory Requests
  imports ProxyProps
begin

text \<open>
  A request of \<^verbatim>\<open>src/src/proxy.rs\<close> in its two halves. \<^verbatim>\<open>ProxyHandler::handle\<close> waits only for its
  backend: until then it runs through the gates and takes a guard, afterwards it reports the outcome
  and drops the guard. Between the halves the request is in flight, and its future may also be
  dropped with its connection, which drops the guard and reports nothing.
\<close>

record pending =
  pd_host :: string
  pd_ip :: ip_addr
  pd_req :: request
  pd_upgrade :: bool
  pd_url :: string
  pd_guard :: nat

text \<open>The reply when no backend could be asked, or the one asked failed.\<close>

definition failed_reply :: "bool \<Rightarrow> handled" where
  "failed_reply is_upgrade =
     Reply (if is_upgrade then error_response BAD_GATEWAY ''WebSocket proxy error''
            else html_error BAD_GATEWAY ''Bad Gateway'' ''The upstream server is unreachable.'')"

definition update_lb :: "string \<Rightarrow> (load_balancer \<Rightarrow> load_balancer) \<Rightarrow> proxy_state \<Rightarrow> proxy_state" where
  "update_lb host f st =
     (case lb_get (ps_lb_manager st) host of
        None \<Rightarrow> st
      | Some lb \<Rightarrow> st\<lparr>ps_lb_manager := (ps_lb_manager st)(host \<mapsto> f lb)\<rparr>)"

text \<open>\<^verbatim>\<open>Inl\<close>: the request is answered at once.\<close>

definition begin_request ::
    "platform \<Rightarrow> proxy_handler \<Rightarrow> clocks \<Rightarrow> ip_addr \<Rightarrow> request \<Rightarrow> bool \<Rightarrow> proxy_state
      \<Rightarrow> (handled + pending) \<times> proxy_state" where
  "begin_request pf h ck ip req is_tls st =
     (let host = request_host pf req;
          (allowed, rl) = is_allowed (ps_rate_limiter st) ip (ck_instant ck);
          st = st\<lparr>ps_rate_limiter := rl\<rparr>
      in if \<not> allowed then (Inl (Reply (error_response TOO_MANY_REQUESTS ''Too Many Requests'')), st)
      else
        case check_request (pf_lowercase pf) (ph_security h) (uri_path (rq_uri req)) (uri_query (rq_uri req))
               (header_text pf (rq_headers req) ''user-agent'') of
          Inl reason \<Rightarrow> (Inl (Reply (html_error FORBIDDEN ''Forbidden'' reason)), st)
        | Inr _ \<Rightarrow>
        (case redirect_location h req host is_tls of
           Some location \<Rightarrow> (Inl (redirect pf location), st)
         | None \<Rightarrow>
           let is_upgrade = is_websocket_upgrade pf req in
           (case (if is_upgrade then NotServed else serve_static pf h req host) of
              Served resp \<Rightarrow> (Inl (Reply (inject_extra_headers pf host (ph_domain_configs h) resp)), st)
            | ServePanics \<Rightarrow> (Inl Panicked, st)
            | NotServed \<Rightarrow>
              (case lb_get (ps_lb_manager st) host of
                 None \<Rightarrow> (Inl (failed_reply is_upgrade), st)
               | Some lb \<Rightarrow>
                 (case select (ck_unix ck) (Some ip) lb of
                    (None, lb) \<Rightarrow>
                      (Inl (failed_reply is_upgrade), update_lb host (\<lambda>_. lb) st)
                  | (Some (backend_url, guard), lb) \<Rightarrow>
                      (Inr \<lparr>pd_host = host, pd_ip = ip, pd_req = req, pd_upgrade = is_upgrade,
                            pd_url = backend_url, pd_guard = guard\<rparr>,
                       update_lb host (\<lambda>_. lb) st))))))"

text \<open>What the request asks its backend.\<close>

definition asked :: "platform \<Rightarrow> proxy_handler \<Rightarrow> pending \<Rightarrow> proxy_error + response" where
  "asked pf h p = send_to_backend pf (ph_timeout h) (pd_url p) (pd_req p) (pd_host p) (pd_ip p)"

definition final_reply :: "platform \<Rightarrow> proxy_handler \<Rightarrow> pending \<Rightarrow> proxy_error + response \<Rightarrow> handled" where
  "final_reply pf h p r =
     (case r of
        Inl e \<Rightarrow> failed_reply (pd_upgrade p)
      | Inr resp \<Rightarrow>
          if \<not> pd_upgrade p then Reply (inject_extra_headers pf (pd_host p) (ph_domain_configs h) resp)
          else if resp_status resp \<noteq> SWITCHING_PROTOCOLS then failed_reply True
          else Reply \<lparr>resp_status = SWITCHING_PROTOCOLS, resp_headers = no_headers, resp_body = empty_body\<rparr>)"

text \<open>Only an answered plain request reports; the guard goes last.\<close>

definition feedback :: "pending \<Rightarrow> proxy_error + response \<Rightarrow> load_balancer \<Rightarrow> load_balancer" where
  "feedback p r lb = (if isl r \<or> pd_upgrade p then lb else success (pd_url p) lb)"

definition end_request ::
    "platform \<Rightarrow> proxy_handler \<Rightarrow> pending \<Rightarrow> proxy_error + response \<Rightarrow> proxy_state
      \<Rightarrow> handled \<times> proxy_state" where
  "end_request pf h p r st =
     (final_reply pf h p r,
      update_lb (pd_host p) (\<lambda>lb. drop_guard (pd_guard p) (feedback p r lb)) st)"

definition cancel_request :: "pending \<Rightarrow> proxy_state \<Rightarrow> proxy_state" where
  "cancel_request p st = update_lb (pd_host p) (drop_guard (pd_guard p)) st"

text \<open>A 101 starts a tunnel, which the guard does not outlive.\<close>

definition opens_tunnel :: "pending \<Rightarrow> proxy_error + response \<Rightarrow> bool" where
  "opens_tunnel p r =
     (pd_upgrade p \<and> (case r of Inl e \<Rightarrow> False | Inr resp \<Rightarrow> resp_status resp = SWITCHING_PROTOCOLS))"

section \<open>The halves make up the handler\<close>

lemma update_lb_simps:
  "lb_get (ps_lb_manager st) host = Some lb \<Longrightarrow>
     update_lb host f st = st\<lparr>ps_lb_manager := (ps_lb_manager st)(host \<mapsto> f lb)\<rparr>"
  "lb_get (ps_lb_manager st) host = None \<Longrightarrow> update_lb host f st = st"
  by (simp_all add: update_lb_def)

lemma begin_limited:
  "\<not> fst (is_allowed (ps_rate_limiter st) ip (ck_instant ck)) \<Longrightarrow>
   begin_request pf h ck ip req is_tls st =
     (Inl (Reply (error_response TOO_MANY_REQUESTS ''Too Many Requests'')), charged ck ip st)"
  by (simp add: begin_request_def charged_def case_prod_beta Let_def)

lemma begin_filtered:
  "fst (is_allowed (ps_rate_limiter st) ip (ck_instant ck)) \<Longrightarrow> verdict pf h req = Inl reason \<Longrightarrow>
   begin_request pf h ck ip req is_tls st =
     (Inl (Reply (html_error FORBIDDEN ''Forbidden'' reason)), charged ck ip st)"
  by (simp add: begin_request_def charged_def verdict_def case_prod_beta Let_def)

text \<open>
  A request that has passed the gates and wants a backend.
\<close>

definition to_backend :: "platform \<Rightarrow> proxy_handler \<Rightarrow> request \<Rightarrow> bool \<Rightarrow> bool" where
  "to_backend pf h req is_tls \<longleftrightarrow>
     redirect_location h req (request_host pf req) is_tls = None \<and>
     (is_websocket_upgrade pf req \<or> serve_static pf h req (request_host pf req) = NotServed)"

lemma begin_local:
  assumes "passes pf h ck ip req st" and "\<not> to_backend pf h req is_tls"
  shows "begin_request pf h ck ip req is_tls st =
    (Inl (fst (handle pf h ck ip req is_tls st)), charged ck ip st) \<and>
    snd (handle pf h ck ip req is_tls st) = charged ck ip st"
  using assms
  by (auto simp: begin_request_def handle_passed passes_def verdict_def to_backend_def charged_def
      case_prod_beta Let_def split: option.split sum.splits served.split)

lemma begin_backend:
  assumes "passes pf h ck ip req st" and "to_backend pf h req is_tls"
  shows "begin_request pf h ck ip req is_tls st =
    (let host = request_host pf req; ws = is_websocket_upgrade pf req in
     case lb_get (ps_lb_manager st) host of
       None \<Rightarrow> (Inl (failed_reply ws), charged ck ip st)
     | Some lb \<Rightarrow>
         (case select (ck_unix ck) (Some ip) lb of
            (None, lb) \<Rightarrow> (Inl (failed_reply ws), update_lb host (\<lambda>_. lb) (charged ck ip st))
          | (Some (url, g), lb) \<Rightarrow>
              (Inr \<lparr>pd_host = host, pd_ip = ip, pd_req = req, pd_upgrade = ws, pd_url = url, pd_guard = g\<rparr>,
               update_lb host (\<lambda>_. lb) (charged ck ip st))))"
  using assms
  by (auto simp: begin_request_def passes_def verdict_def to_backend_def charged_def case_prod_beta Let_def
      split: option.split sum.splits)


lemma charged_manager [simp]:
  "ps_lb_manager (charged ck ip st) = ps_lb_manager st"
  "(charged ck ip st)\<lparr>ps_lb_manager := ps_lb_manager st\<rparr> = charged ck ip st"
  by (cases st; simp add: charged_def)+

lemma handle_backend:
  assumes "passes pf h ck ip req st" and "to_backend pf h req is_tls"
  shows "handle pf h ck ip req is_tls st =
    (let host = request_host pf req in
     if is_websocket_upgrade pf req then
       (let (r, m) = proxy_websocket pf h (ck_unix ck) req host ip (ps_lb_manager st)
        in (case r of Inr resp \<Rightarrow> Reply resp | Inl e \<Rightarrow> failed_reply True,
            (charged ck ip st)\<lparr>ps_lb_manager := m\<rparr>))
     else
       (let (r, m) = proxy_http pf h (ck_unix ck) req host ip (ps_lb_manager st)
        in (case r of
              Inr resp \<Rightarrow> Reply (inject_extra_headers pf host (ph_domain_configs h) resp)
            | Inl e \<Rightarrow> failed_reply False,
            (charged ck ip st)\<lparr>ps_lb_manager := m\<rparr>)))"
  using assms(2) unfolding failed_reply_def handle_passed [OF assms(1)]
  by (auto simp: to_backend_def Let_def)

text \<open>
  C20: The handler is its two halves with the backend's answer in between: handling a request is
  starting it and, when it waits for a backend, ending it with the answer after whatever the other
  tasks did meanwhile.
\<close>

theorem handler_in_two_halves:
  "handle pf h ck ip req is_tls st =
     (case begin_request pf h ck ip req is_tls st of
        (Inl r, st') \<Rightarrow> (r, st')
      | (Inr p, st') \<Rightarrow>
          end_request pf h p (asked pf h p) (update_lb (pd_host p) (pf_meanwhile pf) st'))"
proof (cases rule: gate_cases [where st = st and ip = ip and ck = ck and pf = pf and h = h and req = req])
  case limited
  then show ?thesis by (simp add: handle_limited begin_limited)
next
  case (filtered reason)
  then show ?thesis by (simp add: handle_filtered begin_filtered)
next
  case passed
  show ?thesis
  proof (cases "to_backend pf h req is_tls")
    case False
    note here = begin_local [OF passed False]
    then have "handle pf h ck ip req is_tls st = (fst (handle pf h ck ip req is_tls st), charged ck ip st)"
      by (metis prod.collapse)
    with here show ?thesis by simp
  next
    case True
    let ?host = "request_host pf req"
    note halves = handle_backend [OF passed True] begin_backend [OF passed True]
    show ?thesis
    proof (cases "lb_get (ps_lb_manager st) ?host")
      case None
      then show ?thesis by (simp add: halves proxy_http_def proxy_websocket_def Let_def)
    next
      case (Some lb)
      obtain r lb0 where sel: "select (ck_unix ck) (Some ip) lb = (r, lb0)" by fastforce
      show ?thesis
      proof (cases r)
        case None
        with Some sel show ?thesis
          by (simp add: halves proxy_http_def proxy_websocket_def Let_def update_lb_def)
      next
        case (Some x)
        obtain url g where "x = (url, g)" by (cases x)
        with \<open>lb_get (ps_lb_manager st) ?host = Some lb\<close> sel Some show ?thesis
          by (auto simp: halves proxy_http_def proxy_websocket_def Let_def update_lb_def lb_get_def end_request_def
              final_reply_def feedback_def asked_def failed_reply_def split: sum.split)
      qed
    qed
  qed
qed

section \<open>What a half does to a balancer\<close>

lemma lb_get_update:
  "lb_get (ps_lb_manager (update_lb host f st)) host' =
     (if host' = host then map_option f (lb_get (ps_lb_manager st) host) else lb_get (ps_lb_manager st) host')"
  by (simp add: update_lb_def lb_get_def split: option.split)

lemma begin_request_cases:
  obtains (same) r where "fst (begin_request pf h ck ip req is_tls st) = Inl r"
      "ps_lb_manager (snd (begin_request pf h ck ip req is_tls st)) = ps_lb_manager st"
  | (down) r host lb lb' where "fst (begin_request pf h ck ip req is_tls st) = Inl r"
      "lb_get (ps_lb_manager st) host = Some lb" "select (ck_unix ck) (Some ip) lb = (None, lb')"
      "ps_lb_manager (snd (begin_request pf h ck ip req is_tls st)) = (ps_lb_manager st)(host \<mapsto> lb')"
  | (waits) p lb lb' where "fst (begin_request pf h ck ip req is_tls st) = Inr p"
      "lb_get (ps_lb_manager st) (pd_host p) = Some lb"
      "select (ck_unix ck) (Some ip) lb = (Some (pd_url p, pd_guard p), lb')"
      "ps_lb_manager (snd (begin_request pf h ck ip req is_tls st)) = (ps_lb_manager st)(pd_host p \<mapsto> lb')"
      "pd_ip p = ip"
proof (cases rule: gate_cases [where st = st and ip = ip and ck = ck and pf = pf and h = h and req = req])
  case limited
  then show ?thesis by (intro same) (simp_all add: begin_limited)
next
  case (filtered reason)
  then show ?thesis by (intro same) (simp_all add: begin_filtered)
next
  case passed
  show ?thesis
  proof (cases "to_backend pf h req is_tls")
    case False
    with begin_local [OF passed False] show ?thesis by (intro same) simp_all
  next
    case True
    let ?host = "request_host pf req"
    note start = begin_backend [OF passed True]
    show ?thesis
    proof (cases "lb_get (ps_lb_manager st) ?host")
      case None
      then show ?thesis by (intro same) (simp_all add: start Let_def)
    next
      case (Some lb)
      obtain r lb0 where sel: "select (ck_unix ck) (Some ip) lb = (r, lb0)" by fastforce
      show ?thesis
      proof (cases r)
        case None
        show ?thesis
          by (rule down [OF _ Some, of _ lb0]) (use Some sel None in \<open>simp_all add: start Let_def update_lb_def\<close>)
      next
        case r: (Some x)
        obtain url g where x: "x = (url, g)" by (cases x)
        let ?p = "\<lparr>pd_host = ?host, pd_ip = ip, pd_req = req, pd_upgrade = is_websocket_upgrade pf req,
          pd_url = url, pd_guard = g\<rparr>"
        show ?thesis
          by (rule waits [of ?p lb lb0]) (use Some sel r x in \<open>simp_all add: start Let_def update_lb_def\<close>)
      qed
    qed
  qed
qed

end
