(* ===== verification/Tunnel.thy ===== *)
theory Tunnel
  imports Prelude "HOL-Library.Sublist"
begin

text \<open>
  The WebSocket tunnel that \<^verbatim>\<open>proxy_websocket\<close> of \<^verbatim>\<open>src/src/proxy.rs\<close> spawns when a backend has
  answered 101: a task that waits for the client's connection to be upgraded, then for the
  backend's, and then copies in both directions until either copy ends. Upgrades and
  \<^verbatim>\<open>tokio::io::copy\<close> are the runtime's: \<open>moves\<close> says which bytes a copy may have written next and
  \<open>ends\<close> when it may be over, given what it has written, what its reader has received and whether
  the reader's peer is done sending; \<open>up\<close> says whether the client's connection is served with support
  for upgrades, without which hyper fails the upgrade.
\<close>

section \<open>The task\<close>

datatype tunnel_phase = AwaitingClient | AwaitingBackend | Copying | Over

record tunnel =
  tn_phase :: tunnel_phase
  tn_from_client :: string
  tn_client_done :: bool
  tn_to_backend :: string
  tn_from_backend :: string
  tn_backend_done :: bool
  tn_to_client :: string

definition tunnel_new :: tunnel where
  "tunnel_new =
     \<lparr>tn_phase = AwaitingClient, tn_from_client = [], tn_client_done = False, tn_to_backend = [],
      tn_from_backend = [], tn_backend_done = False, tn_to_client = []\<rparr>"

record copying =
  cp_moves :: "string \<Rightarrow> string \<Rightarrow> bool \<Rightarrow> string \<Rightarrow> bool"
  cp_ends :: "string \<Rightarrow> string \<Rightarrow> bool \<Rightarrow> bool"

text \<open>
  The peers may send and stop sending at any time. An upgrade that fails ends the task; the end of
  one copy, by success or error, drops the other.
\<close>

inductive tunnel_step :: "bool \<Rightarrow> copying \<Rightarrow> tunnel \<Rightarrow> tunnel \<Rightarrow> bool" for up cp where
  ClientSends: "\<not> tn_client_done t \<Longrightarrow>
    tunnel_step up cp t (t\<lparr>tn_from_client := tn_from_client t @ bs\<rparr>)"
| ClientStops: "tunnel_step up cp t (t\<lparr>tn_client_done := True\<rparr>)"
| BackendSends: "\<not> tn_backend_done t \<Longrightarrow>
    tunnel_step up cp t (t\<lparr>tn_from_backend := tn_from_backend t @ bs\<rparr>)"
| BackendStops: "tunnel_step up cp t (t\<lparr>tn_backend_done := True\<rparr>)"
| ClientUpgraded: "up \<Longrightarrow> tn_phase t = AwaitingClient \<Longrightarrow> tunnel_step up cp t (t\<lparr>tn_phase := AwaitingBackend\<rparr>)"
| ClientFails: "tn_phase t = AwaitingClient \<Longrightarrow> tunnel_step up cp t (t\<lparr>tn_phase := Over\<rparr>)"
| BackendUpgraded: "tn_phase t = AwaitingBackend \<Longrightarrow> tunnel_step up cp t (t\<lparr>tn_phase := Copying\<rparr>)"
| BackendFails: "tn_phase t = AwaitingBackend \<Longrightarrow> tunnel_step up cp t (t\<lparr>tn_phase := Over\<rparr>)"
| Up: "tn_phase t = Copying \<Longrightarrow> cp_moves cp (tn_to_backend t) (tn_from_client t) (tn_client_done t) out \<Longrightarrow>
    tunnel_step up cp t (t\<lparr>tn_to_backend := out\<rparr>)"
| Down: "tn_phase t = Copying \<Longrightarrow> cp_moves cp (tn_to_client t) (tn_from_backend t) (tn_backend_done t) out \<Longrightarrow>
    tunnel_step up cp t (t\<lparr>tn_to_client := out\<rparr>)"
| UpEnds: "tn_phase t = Copying \<Longrightarrow> cp_ends cp (tn_to_backend t) (tn_from_client t) (tn_client_done t) \<Longrightarrow>
    tunnel_step up cp t (t\<lparr>tn_phase := Over\<rparr>)"
| DownEnds: "tn_phase t = Copying \<Longrightarrow> cp_ends cp (tn_to_client t) (tn_from_backend t) (tn_backend_done t) \<Longrightarrow>
    tunnel_step up cp t (t\<lparr>tn_phase := Over\<rparr>)"

inductive tunnel_reachable :: "bool \<Rightarrow> copying \<Rightarrow> tunnel \<Rightarrow> bool" for up cp where
  Spawned: "tunnel_reachable up cp tunnel_new"
| Goes: "tunnel_reachable up cp t \<Longrightarrow> tunnel_step up cp t t' \<Longrightarrow> tunnel_reachable up cp t'"

inductive_cases tunnel_stepE: "tunnel_step up cp t t'"

text \<open>
  Both listeners of \<^verbatim>\<open>src/src/main.rs\<close> call \<^verbatim>\<open>serve_connection\<close>, not \<^verbatim>\<open>serve_connection_with_upgrades\<close>.
\<close>

definition client_upgrades :: bool where
  "client_upgrades = False"

section \<open>What a tunnel delivers\<close>

text \<open>As the listeners serve their connections, no tunnel ever copies a byte.\<close>

lemma no_tunnel_without_upgrades:
  assumes "tunnel_reachable client_upgrades cp t"
  shows "tn_phase t \<in> {AwaitingClient, Over} \<and> tn_to_backend t = [] \<and> tn_to_client t = []"
  using assms
proof induction
  case (Goes t t')
  from Goes.hyps(2) Goes.IH show ?case by cases (auto simp: client_upgrades_def)
qed (simp add: tunnel_new_def)

definition plain_copy :: copying where
  "plain_copy =
     \<lparr>cp_moves = \<lambda>out inp c out'. prefix out out' \<and> prefix out' inp,
      cp_ends = \<lambda>out inp c. c \<and> out = inp\<rparr>"

definition demo_tunnel :: tunnel where
  "demo_tunnel =
     \<lparr>tn_phase = Copying, tn_from_client = ''hi'', tn_client_done = False, tn_to_backend = ''hi'',
      tn_from_backend = [], tn_backend_done = False, tn_to_client = []\<rparr>"

lemma demo_tunnel_reachable: "tunnel_reachable True plain_copy demo_tunnel"
proof -
  have "tunnel_reachable True plain_copy (tunnel_new\<lparr>tn_phase := AwaitingBackend\<rparr>)"
    by (rule Goes [OF Spawned ClientUpgraded]) (simp_all add: tunnel_new_def)
  from Goes [OF this BackendUpgraded]
  have "tunnel_reachable True plain_copy (tunnel_new\<lparr>tn_phase := Copying\<rparr>)" by simp
  from Goes [OF this ClientSends [where bs = "''hi''"]]
  have "tunnel_reachable True plain_copy (tunnel_new\<lparr>tn_phase := Copying, tn_from_client := ''hi''\<rparr>)"
    by (simp add: tunnel_new_def)
  from Goes [OF this Up [where out = "''hi''"]] show ?thesis
    by (simp add: tunnel_new_def demo_tunnel_def plain_copy_def)
qed

lemma over_is_over:
  assumes "(tunnel_step up cp)\<^sup>*\<^sup>* t t'" and "tn_phase t = Over"
  shows "tn_phase t' = Over \<and> tn_to_client t' = tn_to_client t \<and> tn_to_backend t' = tn_to_backend t"
  using assms(1)
proof (induction rule: rtranclp_induct)
  case (step t' t'')
  from step.hyps(2) step.IH show ?case by cases simp_all
qed (simp add: assms(2))

text \<open>
  With upgrades a tunnel would not survive a half-close: as soon as the client is done sending and its bytes
  are through, the tunnel may be over, and whatever the backend has yet to say never arrives.
\<close>

theorem half_close_cuts_tunnel:
  assumes "tunnel_reachable True cp t" and "tn_phase t = Copying"
    and "tn_to_backend t = tn_from_client t" and "\<not> tn_backend_done t"
    and "\<And>inp. cp_ends cp inp inp True"
  shows "\<exists>t'. tunnel_reachable True cp t' \<and> tn_client_done t' \<and> tn_from_backend t' = tn_from_backend t @ reply \<and>
    (\<forall>t''. (tunnel_step True cp)\<^sup>*\<^sup>* t' t'' \<longrightarrow> tn_to_client t'' = tn_to_client t)"
proof -
  let ?done = "t\<lparr>tn_client_done := True\<rparr>"
  let ?sent = "?done\<lparr>tn_from_backend := tn_from_backend ?done @ reply\<rparr>"
  let ?over = "?sent\<lparr>tn_phase := Over\<rparr>"
  have "tunnel_reachable True cp ?done" by (rule Goes [OF assms(1) ClientStops])
  then have "tunnel_reachable True cp ?sent" by (rule Goes) (rule BackendSends, use assms(4) in simp)
  then have "tunnel_reachable True cp ?over" by (rule Goes) (rule UpEnds, use assms(2,3,5) in simp_all)
  moreover have "tn_to_client t'' = tn_to_client t" if "(tunnel_step True cp)\<^sup>*\<^sup>* ?over t''" for t''
    using over_is_over [OF that] by simp
  ultimately show ?thesis by (intro exI [of _ ?over]) simp
qed

theorem half_close_cuts_tunnel_witness:
  "\<exists>t'. tunnel_reachable True plain_copy t' \<and> tn_from_backend t' = ''bye'' \<and> tn_to_client t' = []"
  using half_close_cuts_tunnel [OF demo_tunnel_reachable, of "''bye''"]
  by (auto simp: demo_tunnel_def plain_copy_def)

end
