(* ===== verification/Ssl.thy ===== *)
theory Ssl
  imports Config
begin

text \<open>
  The certificate manager \<^verbatim>\<open>src/src/ssl.rs\<close>. Files, PEM parsing and the signing keys and
  certificate resolver of rustls are arguments: a PEM reader yields the DER bytes of each section of
  its kind and an error for each section of any kind that it cannot read. The acceptor is modelled by what it was built from, the
  certified key of each server name and the protocols it offers.
\<close>

datatype private_key = Pkcs8 string | Pkcs1 string | Sec1 string

record tls_library =
  tl_open :: "string \<Rightarrow> string option"
  tl_seekable :: "string \<Rightarrow> bool"
  tl_certs :: "string \<Rightarrow> string option list"
  tl_pkcs8_keys :: "string \<Rightarrow> string option list"
  tl_rsa_keys :: "string \<Rightarrow> string option list"
  tl_ec_keys :: "string \<Rightarrow> string option list"
  tl_signing_key :: "private_key \<Rightarrow> string option"
  tl_accepts_name :: "string \<Rightarrow> string list \<Rightarrow> string \<Rightarrow> bool"

record domain_cert =
  cert_name :: string
  cert_chain :: "string list"
  cert_key :: private_key

record tls_acceptor =
  acc_resolver :: "(string \<times> string list \<times> string) list"
  acc_alpn :: "string list"

record ssl_manager =
  sm_domains :: "domain_cert list"
  sm_acceptor :: "tls_acceptor option"

datatype ssl_error =
    CannotOpenCert | BadCertPem | NoCertificates | CannotOpenKey | SeekFailed | NoSupportedKey
  | BadPrivateKey | CannotRegister string

definition ssl_manager_new :: ssl_manager where
  "ssl_manager_new = \<lparr>sm_domains = [], sm_acceptor = None\<rparr>"

text \<open>\<^verbatim>\<open>collect\<close> into a \<^verbatim>\<open>Result\<close>: the values, or nothing when there is an error among them.\<close>

fun collect_all :: "'a option list \<Rightarrow> 'a list option" where
  "collect_all [] = Some []"
| "collect_all (None # xs) = None"
| "collect_all (Some x # xs) = map_option ((#) x) (collect_all xs)"

definition unwrap_or_default :: "'a list option \<Rightarrow> 'a list" where
  "unwrap_or_default r = (case r of Some xs \<Rightarrow> xs | None \<Rightarrow> [])"

text \<open>
  Each attempt reads the file from its start. \<open>seekable\<close>: whether the two seeks succeed.
\<close>

definition load_key :: "tls_library \<Rightarrow> bool \<Rightarrow> string \<Rightarrow> ssl_error + private_key" where
  "load_key lib seekable reader =
     (case unwrap_or_default (collect_all (tl_pkcs8_keys lib reader)) of
        k # _ \<Rightarrow> Inr (Pkcs8 k)
      | [] \<Rightarrow>
          if \<not> seekable then Inl SeekFailed
          else case unwrap_or_default (collect_all (tl_rsa_keys lib reader)) of
            k # _ \<Rightarrow> Inr (Pkcs1 k)
          | [] \<Rightarrow>
              (case unwrap_or_default (collect_all (tl_ec_keys lib reader)) of
                 k # _ \<Rightarrow> Inr (Sec1 k)
               | [] \<Rightarrow> Inl NoSupportedKey))"

definition load_cert_and_key ::
    "tls_library \<Rightarrow> string \<Rightarrow> string \<Rightarrow> ssl_error + (string list \<times> private_key)" where
  "load_cert_and_key lib cert_path key_path =
     (case tl_open lib cert_path of
        None \<Rightarrow> Inl CannotOpenCert
      | Some cert_file \<Rightarrow>
          (case collect_all (tl_certs lib cert_file) of
             None \<Rightarrow> Inl BadCertPem
           | Some certs \<Rightarrow>
               if certs = [] then Inl NoCertificates
               else case tl_open lib key_path of
                 None \<Rightarrow> Inl CannotOpenKey
               | Some key_file \<Rightarrow>
                   and_then (load_key lib (tl_seekable lib key_path) key_file)
                     (\<lambda>key. Inr (certs, key))))"

definition ssl_add_domain ::
    "tls_library \<Rightarrow> string \<Rightarrow> string \<Rightarrow> string \<Rightarrow> ssl_manager \<Rightarrow> ssl_error + ssl_manager" where
  "ssl_add_domain lib domain cert_path key_path sm =
     and_then (load_cert_and_key lib cert_path key_path) (\<lambda>(certs, key).
       Inr (sm\<lparr>sm_domains := sm_domains sm
                 @ [\<lparr>cert_name = domain, cert_chain = certs, cert_key = key\<rparr>]\<rparr>))"

text \<open>The loop of \<^verbatim>\<open>build\<close> over the registered domains.\<close>

fun build_resolver ::
    "tls_library \<Rightarrow> domain_cert list \<Rightarrow> (string \<times> string list \<times> string) list
      \<Rightarrow> ssl_error + (string \<times> string list \<times> string) list" where
  "build_resolver lib [] resolver = Inr resolver"
| "build_resolver lib (d # ds) resolver =
     (case tl_signing_key lib (cert_key d) of
        None \<Rightarrow> Inl BadPrivateKey
      | Some signing_key \<Rightarrow>
          if \<not> tl_accepts_name lib (cert_name d) (cert_chain d) signing_key
          then Inl (CannotRegister (cert_name d))
          else build_resolver lib ds (resolver @ [(cert_name d, cert_chain d, signing_key)]))"

definition build :: "tls_library \<Rightarrow> ssl_manager \<Rightarrow> ssl_error + ssl_manager" where
  "build lib sm =
     and_then (build_resolver lib (sm_domains sm) []) (\<lambda>resolver.
       Inr (sm\<lparr>sm_acceptor := Some \<lparr>acc_resolver = resolver, acc_alpn = [''h2'', ''http/1.1'']\<rparr>\<rparr>))"

definition has_domains :: "ssl_manager \<Rightarrow> bool" where
  "has_domains sm \<longleftrightarrow> sm_domains sm \<noteq> []"

text \<open>\<^verbatim>\<open>None\<close> is the panic of \<^verbatim>\<open>expect\<close>.\<close>

definition acceptor :: "ssl_manager \<Rightarrow> tls_acceptor option" where
  "acceptor sm = sm_acceptor sm"

section \<open>Facts\<close>

lemma build_resolver_names:
  "build_resolver lib ds acc = Inr r \<Longrightarrow> map fst r = map fst acc @ map cert_name ds"
  by (induction ds arbitrary: acc) (auto split: option.splits if_splits)

lemma build_resolver_length_pos: "build_resolver lib ds acc = Inr r \<Longrightarrow> length r = length acc + length ds"
  by (induction ds arbitrary: acc) (auto split: option.splits if_splits)

lemma ssl_add_domain_names:
  "ssl_add_domain lib d c k sm = Inr sm' \<Longrightarrow>
   map cert_name (sm_domains sm') = map cert_name (sm_domains sm) @ [d] \<and> sm_acceptor sm' = sm_acceptor sm \<and>
   (\<forall>x \<in> set (sm_domains sm'). x \<in> set (sm_domains sm) \<or> cert_chain x \<noteq> [])"
  by (auto simp: ssl_add_domain_def load_cert_and_key_def and_then_Inr_iff split: option.splits if_splits)

lemma build_acceptor:
  "build lib sm = Inr sm' \<Longrightarrow>
   \<exists>a. acceptor sm' = Some a \<and> map fst (acc_resolver a) = map cert_name (sm_domains sm)"
  by (auto simp: build_def acceptor_def and_then_Inr_iff dest: build_resolver_names)

lemma collect_all_map_Some [simp]: "collect_all (map Some xs) = Some xs"
  by (induction xs) auto


section \<open>Which key is loaded\<close>

lemma collect_all_cases: "collect_all xs = (if None \<in> set xs then None else Some (map the xs))"
  by (induction xs rule: collect_all.induct) auto

text \<open>The keys a reader's results amount to: none at all when there is an error among them.\<close>

definition usable :: "string option list \<Rightarrow> string list" where
  "usable xs = (if None \<in> set xs then [] else map the xs)"

lemma unwrap_usable: "unwrap_or_default (collect_all xs) = usable xs"
  by (simp add: unwrap_or_default_def collect_all_cases usable_def)

text \<open>
  The documented behaviour of the PEM readers: a file is a sequence of sections, each readable or not,
  and each reader goes through all of them, skips the readable ones of another kind, and yields the
  others, an unreadable one as an error.
\<close>

datatype pem_section = Key private_key | OtherSection | Unreadable

fun pkcs8_result :: "pem_section \<Rightarrow> string option list" where
  "pkcs8_result (Key (Pkcs8 k)) = [Some k]" | "pkcs8_result Unreadable = [None]" | "pkcs8_result _ = []"

fun rsa_result :: "pem_section \<Rightarrow> string option list" where
  "rsa_result (Key (Pkcs1 k)) = [Some k]" | "rsa_result Unreadable = [None]" | "rsa_result _ = []"

fun ec_result :: "pem_section \<Rightarrow> string option list" where
  "ec_result (Key (Sec1 k)) = [Some k]" | "ec_result Unreadable = [None]" | "ec_result _ = []"

definition pem_readers :: "tls_library \<Rightarrow> (string \<Rightarrow> pem_section list) \<Rightarrow> bool" where
  "pem_readers lib secs \<longleftrightarrow>
     (\<forall>f. tl_pkcs8_keys lib f = concat (map pkcs8_result (secs f)) \<and>
        tl_rsa_keys lib f = concat (map rsa_result (secs f)) \<and>
        tl_ec_keys lib f = concat (map ec_result (secs f)))"

lemma readable_results:
  "Unreadable \<notin> set xs \<Longrightarrow> concat (map pkcs8_result xs) = map Some [k. Key (Pkcs8 k) \<leftarrow> xs]"
  "Unreadable \<notin> set xs \<Longrightarrow> concat (map rsa_result xs) = map Some [k. Key (Pkcs1 k) \<leftarrow> xs]"
  "Unreadable \<notin> set xs \<Longrightarrow> concat (map ec_result xs) = map Some [k. Key (Sec1 k) \<leftarrow> xs]"
  by (induction xs) (auto split: pem_section.splits private_key.splits)

lemma usable_Some [simp]: "usable (map Some ks) = ks"
  by (auto simp: usable_def)

lemma unusable_results:
  assumes "Unreadable \<in> set xs"
  shows "usable (concat (map pkcs8_result xs)) = []" "usable (concat (map rsa_result xs)) = []"
    "usable (concat (map ec_result xs)) = []"
  using assms by (auto simp: usable_def intro!: bexI [of _ Unreadable])

text \<open>
  C38: What a key file with given sections yields. One unreadable section, be it a certificate or a key
  of another kind, hides every key of the file, and the error is that there is no supported key (or that
  the file cannot be rewound). Otherwise it is the first PKCS#8 key of the file, if there is none and the
  file can be rewound the first PKCS#1 key, and if there is none of these the first EC key.
\<close>

theorem loaded_key:
  assumes "pem_readers lib secs"
  shows "load_key lib seekable file =
    (if Unreadable \<in> set (secs file) then Inl (if seekable then NoSupportedKey else SeekFailed)
     else case [k. Key (Pkcs8 k) \<leftarrow> secs file] of
       k # _ \<Rightarrow> Inr (Pkcs8 k)
     | [] \<Rightarrow>
         if \<not> seekable then Inl SeekFailed
         else case map Pkcs1 [k. Key (Pkcs1 k) \<leftarrow> secs file] @ map Sec1 [k. Key (Sec1 k) \<leftarrow> secs file] of
           key # _ \<Rightarrow> Inr key
         | [] \<Rightarrow> Inl NoSupportedKey)"
proof -
  have readers: "tl_pkcs8_keys lib file = concat (map pkcs8_result (secs file))"
    "tl_rsa_keys lib file = concat (map rsa_result (secs file))"
    "tl_ec_keys lib file = concat (map ec_result (secs file))"
    using assms by (simp_all add: pem_readers_def)
  show ?thesis
  proof (cases "Unreadable \<in> set (secs file)")
    case True
    then show ?thesis by (simp add: load_key_def unwrap_usable readers unusable_results)
  next
    case False
    obtain p r e where pre: "[k. Key (Pkcs8 k) \<leftarrow> secs file] = p" "[k. Key (Pkcs1 k) \<leftarrow> secs file] = r"
      "[k. Key (Sec1 k) \<leftarrow> secs file] = e" by blast
    have "load_key lib seekable file =
        (case p of k # _ \<Rightarrow> Inr (Pkcs8 k)
         | [] \<Rightarrow> if \<not> seekable then Inl SeekFailed
             else case r of k # _ \<Rightarrow> Inr (Pkcs1 k)
               | [] \<Rightarrow> (case e of k # _ \<Rightarrow> Inr (Sec1 k) | [] \<Rightarrow> Inl NoSupportedKey))"
      unfolding load_key_def readers readable_results [OF False] pre unwrap_usable usable_Some ..
    with False show ?thesis unfolding pre by (simp split: list.split)
  qed
qed

definition pem_library :: "(string \<Rightarrow> pem_section list) \<Rightarrow> tls_library" where
  "pem_library secs =
     \<lparr>tl_open = Some, tl_seekable = \<lambda>_. True, tl_certs = \<lambda>f. [Some f],
      tl_pkcs8_keys = \<lambda>f. concat (map pkcs8_result (secs f)),
      tl_rsa_keys = \<lambda>f. concat (map rsa_result (secs f)),
      tl_ec_keys = \<lambda>f. concat (map ec_result (secs f)),
      tl_signing_key = \<lambda>_. Some ''s'', tl_accepts_name = \<lambda>_ _ _. True\<rparr>"

theorem loaded_key_witness:
  "load_key (pem_library (\<lambda>_. [Key (Pkcs8 ''a''), Unreadable])) True ''f'' = Inl NoSupportedKey \<and>
   load_key (pem_library (\<lambda>_. [OtherSection, Key (Sec1 ''e''), Key (Pkcs1 ''r'')])) True ''f'' = Inr (Pkcs1 ''r'')"
proof -
  have "pem_readers (pem_library secs) secs" for secs by (simp add: pem_readers_def pem_library_def)
  from loaded_key [OF this] show ?thesis by simp
qed

end
