(* ===== verification/Server.thy ===== *)
theory Server
  imports Proxy HealthCheck Ssl
begin

text \<open>
  The program itself, \<^verbatim>\<open>src/src/main.rs\<close>: start-up, which turns a configuration into the shared
  components, and the two accept loops as a transition system. A connection holds a permit of its
  listener's semaphore and one \<^verbatim>\<open>IpConnectionGuard\<close>; both are given back when its task ends. The
  semaphore is tokio's and an argument.
\<close>

section \<open>Start-up\<close>

record args =
  arg_config :: string
  arg_http_port :: "u16 option"
  arg_https_port :: "u16 option"

text \<open>
  clap reads the command line by the attributes of \<^verbatim>\<open>Args\<close>; what it finds there is \<open>cli\<close>. An option
  that is not given is absent, except the path of the configuration, which has a default.
\<close>

record cli_matches =
  cli_config :: "string option"
  cli_http_port :: "u16 option"
  cli_https_port :: "u16 option"

definition args_parse :: "(string list \<Rightarrow> 'e + cli_matches) \<Rightarrow> string list \<Rightarrow> 'e + args" where
  "args_parse cli argv =
     and_then (cli argv) (\<lambda>m.
       Inr \<lparr>arg_config = (case cli_config m of Some p \<Rightarrow> p | None \<Rightarrow> ''curf.yml''),
            arg_http_port = cli_http_port m, arg_https_port = cli_https_port m\<rparr>)"

definition apply_overrides :: "args \<Rightarrow> config \<Rightarrow> config" where
  "apply_overrides a cfg =
     (let cfg = (case arg_http_port a of
                   Some p \<Rightarrow> cfg\<lparr>cfg_server := (cfg_server cfg)\<lparr>http_port := p\<rparr>\<rparr> | None \<Rightarrow> cfg)
      in case arg_https_port a of
           Some p \<Rightarrow> cfg\<lparr>cfg_server := (cfg_server cfg)\<lparr>https_port := p\<rparr>\<rparr> | None \<Rightarrow> cfg)"

datatype startup_error = ConfigError load_error | TlsLoadError string ssl_error | TlsBuildError ssl_error

text \<open>The loop over the domains: a balancer for each, a certificate for those with TLS.\<close>

fun setup_domains ::
    "tls_library \<Rightarrow> (string \<times> domain_config) list \<Rightarrow> lb_manager \<Rightarrow> ssl_manager \<Rightarrow> string list
      \<Rightarrow> startup_error + (lb_manager \<times> ssl_manager \<times> string list)" where
  "setup_domains lib [] m sm tls_domains = Inr (m, sm, tls_domains)"
| "setup_domains lib ((domain, cfg) # ds) m sm tls_domains =
     (let m = add_domain domain (load_balancer_new cfg) m
      in case dc_tls cfg of
           None \<Rightarrow> setup_domains lib ds m sm tls_domains
         | Some tls \<Rightarrow>
             (case ssl_add_domain lib domain (tls_cert tls) (tls_key tls) sm of
                Inl e \<Rightarrow> Inl (TlsLoadError domain e)
              | Inr sm \<Rightarrow> setup_domains lib ds m sm (tls_domains @ [domain])))"

record running =
  run_proxy :: proxy_handler
  run_state :: proxy_state
  run_security :: security_checker
  run_tasks :: "health_task list"
  run_http_port :: u16
  run_https :: "(u16 \<times> ssl_manager) option"
  run_max_connections :: usize

definition startup ::
    "(string \<Rightarrow> string option) \<Rightarrow> (string \<Rightarrow> raw_config option) \<Rightarrow> tls_library \<Rightarrow> args
      \<Rightarrow> startup_error + running" where
  "startup read_file yaml lib a =
     (case config_load read_file yaml (arg_config a) of
        Inl e \<Rightarrow> Inl (ConfigError e)
      | Inr cfg \<Rightarrow>
        let cfg = apply_overrides a cfg; sv = cfg_server cfg in
        (case setup_domains lib (cfg_domains cfg) lb_manager_new ssl_manager_new [] of
           Inl e \<Rightarrow> Inl e
         | Inr (m, sm, tls_domains) \<Rightarrow>
           let limiter = rate_limiter_new (rate_limit_rps sv) (rate_limit_burst sv);
               security = security_checker_new (max_connections_per_ip sv) (sv_security sv);
               proxy = proxy_handler_new security (timeout_secs sv) (cfg_domains cfg);
               run = \<lparr>run_proxy = proxy,
                      run_state = \<lparr>ps_rate_limiter = limiter, ps_lb_manager = m\<rparr>,
                      run_security = security,
                      run_tasks = start_health_checks (cfg_domains cfg),
                      run_http_port = http_port sv, run_https = None,
                      run_max_connections = max_connections sv\<rparr>
           in if has_domains sm then
                (case build lib sm of
                   Inl e \<Rightarrow> Inl (TlsBuildError e)
                 | Inr sm \<Rightarrow> Inr (run\<lparr>run_https := Some (https_port sv, sm)\<rparr>))
              else Inr run))"

section \<open>The listeners\<close>

datatype listener = Http | Https

datatype phase = Handshake | Serving

text \<open>
  Binding the ports. The HTTP listener runs in a task of its own, whose failure to bind is only
  logged; the HTTPS listener is the main task, whose failure ends the program. Without TLS domains
  the main task waits for Ctrl-C. \<open>bind l addr\<close>: whether listener \<open>l\<close> gets the address.
\<close>

definition listen_addr :: "u16 \<Rightarrow> string" where
  "listen_addr port = ''0.0.0.0:'' @ show_nat (unat port)"

datatype bring_up_result = CannotBind string | Up "listener list"

definition serve_http_up :: "(listener \<Rightarrow> string \<Rightarrow> bool) \<Rightarrow> u16 \<Rightarrow> listener list" where
  "serve_http_up bind port = (if bind Http (listen_addr port) then [Http] else [])"

definition serve_https_up :: "(listener \<Rightarrow> string \<Rightarrow> bool) \<Rightarrow> u16 \<Rightarrow> listener list \<Rightarrow> bring_up_result" where
  "serve_https_up bind port up =
     (if bind Https (listen_addr port) then Up (up @ [Https]) else CannotBind (listen_addr port))"

definition bring_up :: "(listener \<Rightarrow> string \<Rightarrow> bool) \<Rightarrow> running \<Rightarrow> bring_up_result" where
  "bring_up bind run =
     (let up = serve_http_up bind (run_http_port run)
      in case run_https run of
           Some (port, _) \<Rightarrow> serve_https_up bind port up
         | None \<Rightarrow> Up up)"

text \<open>tokio's semaphore; \<open>sem_max\<close> is its \<^verbatim>\<open>MAX_PERMITS\<close>, above which \<^verbatim>\<open>Semaphore::new\<close> panics.\<close>

record 'sem semaphores =
  sem_max :: nat
  sem_new :: "nat \<Rightarrow> 'sem"
  sem_try_acquire :: "'sem \<Rightarrow> 'sem option"
  sem_release :: "'sem \<Rightarrow> 'sem"

record 'sem server =
  sv_permits :: "listener \<Rightarrow> 'sem"
  sv_checker :: security_checker
  sv_proxy :: proxy_state
  sv_conns :: "(listener \<times> ip_addr \<times> phase) multiset"

definition server_new :: "'sem semaphores \<Rightarrow> running \<Rightarrow> 'sem server" where
  "server_new sem run =
     \<lparr>sv_permits = \<lambda>_. sem_new sem (unat (run_max_connections run)),
      sv_checker = run_security run, sv_proxy = run_state run, sv_conns = {#}\<rparr>"

text \<open>
  One round of an accept loop after \<^verbatim>\<open>accept\<close> returned a connection from \<open>ip\<close>: it is dropped
  without a permit, or when the checker refuses the address, which gives the permit back.
\<close>

definition first_phase :: "listener \<Rightarrow> phase" where
  "first_phase l = (case l of Http \<Rightarrow> Serving | Https \<Rightarrow> Handshake)"

definition accept_conn :: "'sem semaphores \<Rightarrow> listener \<Rightarrow> ip_addr \<Rightarrow> 'sem server \<Rightarrow> 'sem server" where
  "accept_conn sem l ip s =
     (case sem_try_acquire sem (sv_permits s l) of
        None \<Rightarrow> s
      | Some permits \<Rightarrow>
          (case check_and_acquire_connection (sv_checker s) ip of
             (Inl _, sc) \<Rightarrow>
               s\<lparr>sv_permits := (sv_permits s)(l := sem_release sem permits), sv_checker := sc\<rparr>
           | (Inr _, sc) \<Rightarrow>
               s\<lparr>sv_permits := (sv_permits s)(l := permits), sv_checker := sc,
                 sv_conns := add_mset (l, ip, first_phase l) (sv_conns s)\<rparr>))"

text \<open>The end of a connection's task: its guard and its permit are dropped.\<close>

definition close_conn ::
    "'sem semaphores \<Rightarrow> listener \<Rightarrow> ip_addr \<Rightarrow> phase \<Rightarrow> 'sem server \<Rightarrow> 'sem server" where
  "close_conn sem l ip ph s =
     s\<lparr>sv_checker := release_connection (sv_checker s) ip,
       sv_permits := (sv_permits s)(l := sem_release sem (sv_permits s l)),
       sv_conns := sv_conns s - {#(l, ip, ph)#}\<rparr>"

definition handshake_done :: "ip_addr \<Rightarrow> 'sem server \<Rightarrow> 'sem server" where
  "handshake_done ip s =
     s\<lparr>sv_conns := add_mset (Https, ip, Serving) (sv_conns s - {#(Https, ip, Handshake)#})\<rparr>"

text \<open>A failed or late handshake.\<close>

definition handshake_failed :: "'sem semaphores \<Rightarrow> ip_addr \<Rightarrow> 'sem server \<Rightarrow> 'sem server" where
  "handshake_failed sem ip s =
     close_conn sem Https ip Handshake (s\<lparr>sv_checker := record_tls_failure (sv_checker s) ip\<rparr>)"

definition serve_request ::
    "platform \<Rightarrow> proxy_handler \<Rightarrow> clocks \<Rightarrow> listener \<Rightarrow> ip_addr \<Rightarrow> request \<Rightarrow> 'sem server \<Rightarrow> 'sem server" where
  "serve_request pf h ck l ip req s =
     s\<lparr>sv_proxy := snd (handle pf (h\<lparr>ph_security := sv_checker s\<rparr>) ck ip req (l = Https) (sv_proxy s))\<rparr>"

text \<open>
  The steps of the server: any order of arrivals, handshakes, requests and ends of connections
  (a client that leaves, or the limit of 60 seconds). With more permits configured than a semaphore
  can hold the listeners panic before their first round and there is no state to start from.
\<close>

inductive server_step :: "'sem semaphores \<Rightarrow> proxy_handler \<Rightarrow> 'sem server \<Rightarrow> 'sem server \<Rightarrow> bool"
  for sem h where
  Arrive: "server_step sem h s (accept_conn sem l ip s)"
| TlsDone: "(Https, ip, Handshake) \<in># sv_conns s \<Longrightarrow> server_step sem h s (handshake_done ip s)"
| TlsFailed: "(Https, ip, Handshake) \<in># sv_conns s \<Longrightarrow> server_step sem h s (handshake_failed sem ip s)"
| Serve: "(l, ip, Serving) \<in># sv_conns s \<Longrightarrow> server_step sem h s (serve_request pf h ck l ip req s)"
| Close: "(l, ip, Serving) \<in># sv_conns s \<Longrightarrow> server_step sem h s (close_conn sem l ip Serving s)"

inductive reachable :: "'sem semaphores \<Rightarrow> running \<Rightarrow> 'sem server \<Rightarrow> bool" for sem run where
  Start: "unat (run_max_connections run) \<le> sem_max sem \<Longrightarrow> reachable sem run (server_new sem run)"
| Step: "reachable sem run s \<Longrightarrow> server_step sem (run_proxy run) s s' \<Longrightarrow> reachable sem run s'"

inductive_cases server_stepE: "server_step sem h s s'"

end
