(* ===== verification/ServerProps.thy ===== *)
theory ServerProps
  imports Server ProxyProps
begin

text \<open>
  What the program of \<^verbatim>\<open>src/src/main.rs\<close> promises: the accounting of permits and of connections
  per address in every reachable state, what a block does and does not do, and what start-up
  builds from a configuration.
\<close>

section \<open>Permits\<close>

text \<open>
  The documented behaviour of \<^verbatim>\<open>tokio::sync::Semaphore\<close>: \<open>avail\<close> permits are available, a new one has
  those asked for if it can hold them, taking one fails exactly when there is none, and dropping one
  gives it back.
\<close>

definition semaphore_laws :: "'sem semaphores \<Rightarrow> ('sem \<Rightarrow> nat) \<Rightarrow> bool" where
  "semaphore_laws sem avail \<longleftrightarrow>
     (\<forall>n \<le> sem_max sem. avail (sem_new sem n) = n) \<and>
     (\<forall>s. sem_try_acquire sem s = None \<longleftrightarrow> avail s = 0) \<and>
     (\<forall>s s'. sem_try_acquire sem s = Some s' \<longrightarrow> avail s = Suc (avail s')) \<and>
     (\<forall>s. avail (sem_release sem s) = Suc (avail s))"

definition on_listener :: "listener \<Rightarrow> 'sem server \<Rightarrow> nat" where
  "on_listener l s = size {#c \<in># sv_conns s. fst c = l#}"

definition permits_balance :: "('sem \<Rightarrow> nat) \<Rightarrow> nat \<Rightarrow> 'sem server \<Rightarrow> bool" where
  "permits_balance avail n s \<longleftrightarrow> (\<forall>l. avail (sv_permits s l) + on_listener l s = n)"

lemma on_listener_simps [simp]:
  "on_listener l (s\<lparr>sv_permits := p\<rparr>) = on_listener l s"
  "on_listener l (s\<lparr>sv_checker := c\<rparr>) = on_listener l s"
  "on_listener l (s\<lparr>sv_proxy := q\<rparr>) = on_listener l s"
  by (simp_all add: on_listener_def)

lemma on_listener_remove:
  assumes "(l, ip, ph) \<in># sv_conns s"
  shows "on_listener k s = on_listener k (s\<lparr>sv_conns := sv_conns s - {#(l, ip, ph)#}\<rparr>) + (if k = l then 1 else 0)"
proof -
  obtain M where "sv_conns s = add_mset (l, ip, ph) M" using assms by (rule mset_add)
  then show ?thesis by (simp add: on_listener_def)
qed

lemma accept_permits [inv_intros]:
  assumes "semaphore_laws sem avail" and "permits_balance avail n s"
  shows "permits_balance avail n (accept_conn sem l ip s)"
proof (cases "sem_try_acquire sem (sv_permits s l)")
  case None
  with assms(2) show ?thesis by (simp add: accept_conn_def)
next
  case (Some p)
  then have p: "avail (sv_permits s l) = Suc (avail p)" using assms(1) by (simp add: semaphore_laws_def)
  have rel: "avail (sem_release sem p) = Suc (avail p)" using assms(1) by (simp add: semaphore_laws_def)
  have bal: "avail (sv_permits s k) + size {#c \<in># sv_conns s. fst c = k#} = n" for k
    using assms(2) by (simp add: permits_balance_def on_listener_def)
  obtain r sc where r: "check_and_acquire_connection (sv_checker s) ip = (r, sc)" by fastforce
  show ?thesis
    unfolding permits_balance_def
  proof
    fix k
    show "avail (sv_permits (accept_conn sem l ip s) k) + on_listener k (accept_conn sem l ip s) = n"
      using bal [of k] p rel Some r by (cases r) (auto simp: accept_conn_def on_listener_def)
  qed
qed

lemma close_permits [inv_intros]:
  assumes "semaphore_laws sem avail" and "permits_balance avail n s" and "(l, ip, ph) \<in># sv_conns s"
  shows "permits_balance avail n (close_conn sem l ip ph s)"
  unfolding permits_balance_def
proof
  fix k
  have rel: "avail (sem_release sem (sv_permits s l)) = Suc (avail (sv_permits s l))"
    using assms(1) by (simp add: semaphore_laws_def)
  have bal: "avail (sv_permits s k) + on_listener k s = n" using assms(2) by (simp add: permits_balance_def)
  have "on_listener k (close_conn sem l ip ph s) = on_listener k (s\<lparr>sv_conns := sv_conns s - {#(l, ip, ph)#}\<rparr>)"
    by (simp add: close_conn_def on_listener_def)
  moreover have "avail (sv_permits (close_conn sem l ip ph s) k) =
      avail (sv_permits s k) + (if k = l then 1 else 0)"
    by (simp add: close_conn_def rel)
  ultimately show "avail (sv_permits (close_conn sem l ip ph s) k) + on_listener k (close_conn sem l ip ph s) = n"
    using bal on_listener_remove [OF assms(3), of k] by simp
qed

definition live_ips :: "'sem server \<Rightarrow> ip_addr multiset" where
  "live_ips s = image_mset (\<lambda>c. fst (snd c)) (sv_conns s)"

lemma handshake_done_conns:
  assumes "(Https, ip, Handshake) \<in># sv_conns s"
  shows "on_listener k (handshake_done ip s) = on_listener k s"
    and "live_ips (handshake_done ip s) = live_ips s"
proof -
  obtain M where "sv_conns s = add_mset (Https, ip, Handshake) M" using assms by (rule mset_add)
  then show "on_listener k (handshake_done ip s) = on_listener k s"
    and "live_ips (handshake_done ip s) = live_ips s"
    by (simp_all add: on_listener_def live_ips_def handshake_done_def)
qed

lemma step_permits:
  assumes "server_step sem h s s'" and "semaphore_laws sem avail" and "permits_balance avail n s"
  shows "permits_balance avail n s'"
  using assms
proof cases
  case (TlsDone ip)
  then have "on_listener k s' = on_listener k s" for k by (simp add: handshake_done_conns)
  moreover have "sv_permits s' = sv_permits s" using TlsDone by (simp add: handshake_done_def)
  ultimately show ?thesis using assms(3) by (simp add: permits_balance_def)
next
  case (TlsFailed ip)
  have "permits_balance avail n (s\<lparr>sv_checker := record_tls_failure (sv_checker s) ip\<rparr>)"
    using assms(3) by (simp add: permits_balance_def)
  with assms(2) TlsFailed show ?thesis by (simp add: handshake_failed_def close_permits)
next
  case (Serve l ip pf ck req)
  with assms(3) show ?thesis by (simp add: permits_balance_def serve_request_def)
qed (auto intro: inv_intros)

lemma reachable_permits:
  assumes "semaphore_laws sem avail" and "reachable sem run s"
  shows "permits_balance avail (unat (run_max_connections run)) s"
  using assms(2)
proof induction
  case Start
  then show ?case
    using assms(1) by (simp add: permits_balance_def server_new_def on_listener_def semaphore_laws_def)
next
  case (Step s s')
  then show ?case using step_permits assms(1) by blast
qed

text \<open>
  C5: In every reachable state the free permits of a listener and its live connections add up to
  the configured maximum: no path (refusal, failed handshake, end) loses or doubles a permit. Each
  of the two listeners has the whole maximum to itself.
\<close>

theorem permits_account_for_connections:
  assumes "semaphore_laws sem avail" and "reachable sem run s"
  shows "avail (sv_permits s l) + size {#c \<in># sv_conns s. fst c = l#} = unat (run_max_connections run)"
  using reachable_permits [OF assms] by (simp add: permits_balance_def on_listener_def)

text \<open>A small server for the examples, with numbers as semaphores.\<close>

definition counting :: "nat semaphores" where
  "counting =
     \<lparr>sem_max = 2 ^ 61 - 1, sem_new = \<lambda>n. n, sem_try_acquire = \<lambda>n. if n = 0 then None else Some (n - 1),
      sem_release = Suc\<rparr>"

definition small_run :: running where
  "small_run =
     \<lparr>run_proxy = test_handler, run_state = test_state,
      run_security = security_checker_new 5 (security_flags_default\<lparr>max_tls_failures := 1\<rparr>),
      run_tasks = [], run_http_port = 80, run_https = None, run_max_connections = 2\<rparr>"

definition one_conn :: "nat server" where
  "one_conn = accept_conn counting Https (V4 1) (server_new counting small_run)"

lemma counting_laws: "semaphore_laws counting (\<lambda>n. n)"
  by (auto simp: semaphore_laws_def counting_def split: if_splits)

lemma one_conn_reachable: "reachable counting small_run one_conn"
  unfolding one_conn_def
  by (rule reachable.Step [OF reachable.Start server_step.Arrive]) (simp add: small_run_def counting_def)

lemma one_conn_conns: "sv_conns one_conn = {#(Https, V4 1, Handshake)#}"
  by (simp add: one_conn_def accept_conn_def server_new_def counting_def small_run_def
      check_and_acquire_connection_def security_checker_new_def first_phase_def)

theorem permits_account_for_connections_witness:
  "sv_permits one_conn Https = 1 \<and> sv_permits one_conn Http = 2"
  using permits_account_for_connections [OF counting_laws one_conn_reachable, of Https]
    permits_account_for_connections [OF counting_laws one_conn_reachable, of Http]
  by (simp add: one_conn_conns small_run_def)

section \<open>Connections per address\<close>

lemma count_live_ips: "count (live_ips s) ip = size {#c \<in># sv_conns s. fst (snd c) = ip#}"
proof -
  have "count (image_mset f M) ip = size {#c \<in># M. f c = ip#}" for f :: "'b \<Rightarrow> ip_addr" and M
    by (induction M) auto
  then show ?thesis by (simp add: live_ips_def)
qed

definition ips_tracked :: "'sem server \<Rightarrow> bool" where
  "ips_tracked s \<longleftrightarrow> conn.tracks (sv_checker s) (live_ips s) \<and> wf_security (sv_checker s)"

lemma wf_security_ops [inv_intros]:
  "wf_security sc \<Longrightarrow> wf_security (snd (check_and_acquire_connection sc ip))"
  "wf_security sc \<Longrightarrow> wf_security (release_connection sc ip)"
  "wf_security sc \<Longrightarrow> wf_security (record_tls_failure sc ip)"
  using wf_sec_step [of sc "Acquire ip"] wf_sec_step [of sc "Release ip"] wf_sec_step [of sc "TlsFailure ip"]
  by simp_all

lemma tracks_refused:
  assumes "conn.tracks sc M" and "check_and_acquire_connection sc ip = (Inl u, sc')"
  shows "conn.tracks sc' M"
proof -
  have "conn_count sc' ip' = conn_count sc ip'" for ip'
    using acquire_count [of sc ip ip'] acquire_result [of sc ip] assms(2) by (auto split: if_splits)
  with assms(1) show ?thesis by (simp add: conn.tracks_def)
qed

lemma accept_tracked [inv_intros]:
  assumes "ips_tracked s"
  shows "ips_tracked (accept_conn sem l ip s)"
proof (cases "sem_try_acquire sem (sv_permits s l)")
  case None
  with assms show ?thesis by (simp add: accept_conn_def)
next
  case (Some p)
  obtain r sc where r: "check_and_acquire_connection (sv_checker s) ip = (r, sc)" by fastforce
  then have wf: "wf_security sc"
    using assms wf_security_ops(1) [of "sv_checker s" ip] by (simp add: ips_tracked_def)
  show ?thesis
  proof (cases r)
    case (Inl u)
    with r assms have "conn.tracks sc (live_ips s)" by (auto simp: ips_tracked_def intro: tracks_refused)
    with Some r Inl wf show ?thesis by (simp add: accept_conn_def ips_tracked_def live_ips_def)
  next
    case (Inr u)
    with r have "unat (conn_count (sv_checker s) ip) < conn_limit (sv_checker s) ip"
      using acquire_Ok_iff [of "sv_checker s" ip] by simp
    then have "conn.tracks sc (add_mset ip (live_ips s))"
      using conn.tracks_acq [of "sv_checker s" "live_ips s" ip] assms r
      by (simp add: ips_tracked_def conn_acquire_def)
    with Some r Inr wf show ?thesis by (simp add: accept_conn_def ips_tracked_def live_ips_def)
  qed
qed

lemma close_tracked [inv_intros]:
  assumes "ips_tracked s" and "(l, ip, ph) \<in># sv_conns s"
  shows "ips_tracked (close_conn sem l ip ph s)"
proof -
  have "live_ips (close_conn sem l ip ph s) = live_ips s - {#ip#}"
    using assms(2) by (simp add: live_ips_def close_conn_def image_mset_Diff)
  moreover have "ip \<in># live_ips s" using assms(2) by (force simp: live_ips_def)
  ultimately show ?thesis
    using assms(1) conn.tracks_rel [of "sv_checker s" "live_ips s" ip]
    by (simp add: ips_tracked_def close_conn_def conn_release_def wf_security_ops)
qed

lemma step_tracked:
  assumes "server_step sem h s s'" and "ips_tracked s"
  shows "ips_tracked s'"
  using assms
proof cases
  case (TlsDone ip)
  then have "live_ips s' = live_ips s" by (simp add: handshake_done_conns)
  with assms(2) TlsDone show ?thesis by (simp add: ips_tracked_def handshake_done_def)
next
  case (TlsFailed ip)
  have "ips_tracked (s\<lparr>sv_checker := record_tls_failure (sv_checker s) ip\<rparr>)"
    using assms(2)
    by (simp add: ips_tracked_def live_ips_def conn.tracks_def frame_simps wf_security_ops)
  with TlsFailed show ?thesis by (simp add: handshake_failed_def close_tracked)
next
  case (Serve l ip pf ck req)
  with assms(2) show ?thesis by (simp add: ips_tracked_def serve_request_def live_ips_def)
qed (auto intro: inv_intros)

lemma step_limit: "server_step sem h s s' \<Longrightarrow>
  sc_max_connections_per_ip (sv_checker s') = sc_max_connections_per_ip (sv_checker s)"
  by (erule server_stepE)
    (auto simp: accept_conn_def handshake_done_def handshake_failed_def close_conn_def serve_request_def
      frame_simps split: option.splits prod.splits sum.splits dest!: arg_cong [where f = snd])

lemma reachable_tracked:
  assumes "reachable sem run s" and "run_security run = security_checker_new m fl"
  shows "ips_tracked s \<and> sc_max_connections_per_ip (sv_checker s) = m"
  using assms(1)
proof induction
  case Start
  then show ?case
    using assms(2)
    by (simp add: ips_tracked_def server_new_def live_ips_def conn.tracks_def wf_security_new)
next
  case (Step s s')
  then show ?case using step_tracked step_limit by metis
qed

text \<open>
  C6: In every reachable state the checker counts exactly the live connections of each address,
  over both listeners, and no address has more than the configured number.
\<close>

theorem ip_count_is_live_connections:
  assumes "reachable sem run s" and "run_security run = security_checker_new m fl"
  shows "unat (conn_count (sv_checker s) ip) = size {#c \<in># sv_conns s. fst (snd c) = ip#} \<and>
    size {#c \<in># sv_conns s. fst (snd c) = ip#} \<le> unat m"
proof -
  have "unat (conn_count (sv_checker s) ip) = count (live_ips s) ip"
    and "unat (conn_count (sv_checker s) ip) \<le> unat m"
    using reachable_tracked [OF assms]
    by (auto simp: ips_tracked_def conn.tracks_def wf_security_def word_le_nat_alt)
  then show ?thesis by (simp add: count_live_ips)
qed

theorem ip_count_is_live_connections_witness:
  "unat (conn_count (sv_checker one_conn) (V4 1)) = 1"
  using ip_count_is_live_connections [OF one_conn_reachable, of 5
      "security_flags_default\<lparr>max_tls_failures := 1\<rparr>" "V4 1"]
  by (simp add: small_run_def one_conn_conns)

section \<open>Blocked addresses\<close>

lemma live_ips_remove:
  assumes "(l, ip, ph) \<in># sv_conns s"
  shows "live_ips (close_conn sem l ip ph s) = live_ips s - {#ip#}"
  using assms by (simp add: live_ips_def close_conn_def image_mset_Diff)

lemma accept_blocked:
  assumes "blocked (sv_checker s) ip"
  shows "blocked (sv_checker (accept_conn sem l ip' s)) ip \<and>
    count (live_ips (accept_conn sem l ip' s)) ip = count (live_ips s) ip"
proof (cases "sem_try_acquire sem (sv_permits s l)")
  case None
  with assms show ?thesis by (simp add: accept_conn_def)
next
  case (Some p)
  obtain r sc where r: "check_and_acquire_connection (sv_checker s) ip' = (r, sc)" by fastforce
  have "blocked sc ip" using assms r blocked_frame(1) [of "sv_checker s" ip'] by simp
  moreover have "ip' = ip \<Longrightarrow> r = Inl ()" using assms r acquire_result [of "sv_checker s" ip'] by auto
  ultimately show ?thesis
    using Some r by (cases r) (auto simp: accept_conn_def live_ips_def)
qed

text \<open>
  C34: A blocked address stays blocked and gets no further connection on either listener, whatever
  the server does next.
\<close>

theorem blocked_address_is_shut_out:
  assumes "server_step sem h s s'" and "blocked (sv_checker s) ip"
  shows "blocked (sv_checker s') ip \<and>
    size {#c \<in># sv_conns s'. fst (snd c) = ip#} \<le> size {#c \<in># sv_conns s. fst (snd c) = ip#}"
proof -
  have "blocked (sv_checker s') ip \<and> count (live_ips s') ip \<le> count (live_ips s) ip"
    using assms(1)
  proof cases
    case (Arrive l ip')
    then show ?thesis using accept_blocked [OF assms(2), of sem l ip'] by auto
  next
    case (TlsDone ip')
    then have "live_ips s' = live_ips s" by (simp add: handshake_done_conns)
    moreover have "sv_checker s' = sv_checker s" using TlsDone by (simp add: handshake_done_def)
    ultimately show ?thesis using assms(2) by simp
  next
    case (TlsFailed ip')
    then have "live_ips s' = live_ips s - {#ip'#}"
      using live_ips_remove [of Https ip' Handshake "s\<lparr>sv_checker := record_tls_failure (sv_checker s) ip'\<rparr>"]
      by (simp add: handshake_failed_def live_ips_def)
    moreover have "blocked (sv_checker s') ip"
      using TlsFailed assms(2)
      by (simp add: handshake_failed_def close_conn_def blocked_frame tls_failure_blocked)
    ultimately show ?thesis by simp
  next
    case (Serve l ip' pf ck req)
    then show ?thesis using assms(2) by (simp add: serve_request_def live_ips_def)
  next
    case (Close l ip')
    then show ?thesis
      using assms(2) live_ips_remove [of l ip' Serving s sem] by (simp add: close_conn_def blocked_frame)
  qed
  then show ?thesis by (simp only: count_live_ips)
qed

definition after_failure :: "nat server" where
  "after_failure = handshake_failed counting (V4 1) one_conn"

theorem blocked_address_is_shut_out_witness:
  "size {#c \<in># sv_conns (accept_conn counting Http (V4 1) after_failure). fst (snd c) = V4 1#} = 0"
proof -
  have conns: "sv_conns after_failure = {#}"
    by (simp add: after_failure_def handshake_failed_def close_conn_def one_conn_conns)
  have "max_tls_failures (sc_flags (sv_checker one_conn)) = 1 \<and> block_tls_abusers (sc_flags (sv_checker one_conn))"
    by (simp add: one_conn_def accept_conn_def server_new_def counting_def small_run_def
        check_and_acquire_connection_def security_checker_new_def security_flags_default_def)
  moreover have "tls_count (sv_checker one_conn) (V4 1) = 0"
    by (simp add: one_conn_def accept_conn_def server_new_def counting_def small_run_def tls_count_def
        check_and_acquire_connection_def security_checker_new_def)
  ultimately have "blocked (sv_checker after_failure) (V4 1)"
    by (simp add: after_failure_def handshake_failed_def close_conn_def blocked_frame tls_failure_blocked)
  from blocked_address_is_shut_out [OF server_step.Arrive this] conns show ?thesis by simp
qed

text \<open>
  A block is enforced at the door only: the handler never looks at the block list, so
  requests on a connection that is already open are answered as before.
\<close>

theorem handler_ignores_block_list:
  "handle pf (h\<lparr>ph_security := (ph_security h)\<lparr>sc_blocked_ips := blocked_ips\<rparr>\<rparr>) ck ip req is_tls st
    = handle pf h ck ip req is_tls st"
proof -
  have "check_request lc ((ph_security h)\<lparr>sc_blocked_ips := blocked_ips\<rparr>) path query ua =
      check_request lc (ph_security h) path query ua" for lc path query ua
    by (simp add: check_request_eq)
  moreover have fields: "ph_timeout (h\<lparr>ph_security := x\<rparr>) = ph_timeout h"
    "ph_domain_configs (h\<lparr>ph_security := x\<rparr>) = ph_domain_configs h"
    "ph_static_servers (h\<lparr>ph_security := x\<rparr>) = ph_static_servers h"
    "ph_security (h\<lparr>ph_security := x\<rparr>) = x" for x
    by simp_all
  then have "redirect_location (h\<lparr>ph_security := x\<rparr>) = redirect_location h"
    "serve_static pf (h\<lparr>ph_security := x\<rparr>) = serve_static pf h"
    "proxy_http pf (h\<lparr>ph_security := x\<rparr>) = proxy_http pf h"
    "proxy_websocket pf (h\<lparr>ph_security := x\<rparr>) = proxy_websocket pf h" for x
    by (simp_all only: fun_eq_iff redirect_location_def serve_static_def proxy_http_def
        proxy_websocket_def fields simp_thms)
  ultimately show ?thesis by (simp only: handle_def fields)
qed

section \<open>Start-up\<close>

definition tls_names :: "(string \<times> domain_config) list \<Rightarrow> string list" where
  "tls_names ds = map fst (filter (\<lambda>(d, c). dc_tls c \<noteq> None) ds)"

lemma setup_domains_spec:
  assumes "setup_domains lib ds m sm ts = Inr (m', sm', ts')"
  shows "m' = m ++ map_of (rev (map (\<lambda>(d, c). (d, load_balancer_new c)) ds)) \<and>
    map cert_name (sm_domains sm') = map cert_name (sm_domains sm) @ tls_names ds \<and>
    ts' = ts @ tls_names ds"
  using assms
proof (induction ds arbitrary: m sm ts)
  case Nil
  then show ?case by (simp add: tls_names_def)
next
  case (Cons p ds)
  obtain d c where p: "p = (d, c)" by (cases p)
  have map: "m(d \<mapsto> load_balancer_new c) ++ map_of (rev (map (\<lambda>(d, c). (d, load_balancer_new c)) ds)) =
      m ++ map_of (rev (map (\<lambda>(d, c). (d, load_balancer_new c)) (p # ds)))"
    by (simp add: p map_add_assoc [symmetric])
  show ?case
  proof (cases "dc_tls c")
    case None
    with Cons.prems p have "setup_domains lib ds (m(d \<mapsto> load_balancer_new c)) sm ts = Inr (m', sm', ts')"
      by (simp add: add_domain_def)
    note IH = Cons.IH [OF this]
    have "tls_names (p # ds) = tls_names ds" using None p by (simp add: tls_names_def)
    with IH trans [OF conjunct1 [OF IH] map] show ?thesis by metis
  next
    case (Some tls)
    with Cons.prems p obtain sm1 where sm1: "ssl_add_domain lib d (tls_cert tls) (tls_key tls) sm = Inr sm1"
      and run: "setup_domains lib ds (m(d \<mapsto> load_balancer_new c)) sm1 (ts @ [d]) = Inr (m', sm', ts')"
      by (auto simp: add_domain_def Let_def split: sum.splits)
    from ssl_add_domain_names [OF sm1]
    have "map cert_name (sm_domains sm1) = map cert_name (sm_domains sm) @ [d]" by blast
    moreover have "tls_names (p # ds) = d # tls_names ds" using Some p by (simp add: tls_names_def)
    ultimately show ?thesis
      using trans [OF conjunct1 [OF Cons.IH [OF run]] map] conjunct2 [OF Cons.IH [OF run]] by auto
  qed
qed

lemma distinct_map_of_rev:
  assumes "distinct (map fst xs)" and "(k, v) \<in> set xs"
  shows "(m ++ map_of (rev (map (\<lambda>(d, c). (d, f c)) xs))) k = Some (f v)"
proof -
  have "distinct (map fst (rev (map (\<lambda>(d, c). (d, f c)) xs)))"
    using assms(1) by (simp add: comp_def case_prod_beta rev_map [symmetric])
  moreover have "(k, f v) \<in> set (rev (map (\<lambda>(d, c). (d, f c)) xs))" using assms(2) by force
  ultimately show ?thesis by (simp add: map_add_def)
qed

text \<open>
  C35: A successful start-up has wired every domain: each has its own fresh balancer and its
  configuration in the handler, a command line port wins over the configured one, the HTTPS
  listener runs exactly when some domain has TLS, and then the certificate resolver knows exactly
  the TLS domains and the acceptor is there: the \<^verbatim>\<open>expect\<close> in \<^verbatim>\<open>acceptor()\<close> cannot fail.
\<close>

theorem startup_wires_domains:
  assumes "startup read_file yaml lib a = Inr run"
    and "config_load read_file yaml (arg_config a) = Inr cfg"
    and "distinct (map fst (cfg_domains cfg))"
  shows "(\<forall>(d, c) \<in> set (cfg_domains cfg).
      lb_get (ps_lb_manager (run_state run)) d = Some (load_balancer_new c) \<and>
      ph_domain_configs (run_proxy run) d = Some c) \<and>
    run_http_port run = (case arg_http_port a of Some p \<Rightarrow> p | None \<Rightarrow> http_port (cfg_server cfg)) \<and>
    (run_https run = None \<longleftrightarrow> (\<forall>(d, c) \<in> set (cfg_domains cfg). dc_tls c = None)) \<and>
    (\<forall>port sm. run_https run = Some (port, sm) \<longrightarrow>
       port = (case arg_https_port a of Some p \<Rightarrow> p | None \<Rightarrow> https_port (cfg_server cfg)) \<and>
       (\<exists>acc. acceptor sm = Some acc \<and>
          map fst (acc_resolver acc) = map fst (filter (\<lambda>(d, c). dc_tls c \<noteq> None) (cfg_domains cfg))))"
proof -
  let ?cfg = "apply_overrides a cfg"
  have ds: "cfg_domains ?cfg = cfg_domains cfg"
    and ports: "http_port (cfg_server ?cfg) = (case arg_http_port a of Some p \<Rightarrow> p | None \<Rightarrow> http_port (cfg_server cfg))"
      "https_port (cfg_server ?cfg) = (case arg_https_port a of Some p \<Rightarrow> p | None \<Rightarrow> https_port (cfg_server cfg))"
    by (simp_all add: apply_overrides_def Let_def split: option.splits)
  obtain m sm ts where set: "setup_domains lib (cfg_domains cfg) lb_manager_new ssl_manager_new [] = Inr (m, sm, ts)"
    using assms(1,2) ds by (auto simp: startup_def Let_def split: sum.splits)
  note spec = setup_domains_spec [OF set]
  have names: "map cert_name (sm_domains sm) = tls_names (cfg_domains cfg)"
    using spec by (simp add: ssl_manager_new_def)
  have run: "ps_lb_manager (run_state run) = m" "ph_domain_configs (run_proxy run) = map_of (cfg_domains cfg)"
    "run_http_port run = http_port (cfg_server ?cfg)"
    using assms(1,2) set ds
    by (auto simp: startup_def Let_def proxy_handler_new_def split: sum.splits if_splits)
  have "has_domains sm \<longleftrightarrow> tls_names (cfg_domains cfg) \<noteq> []"
    using names by (auto simp: has_domains_def)
  then have some: "has_domains sm \<longleftrightarrow> \<not> (\<forall>(d, c) \<in> set (cfg_domains cfg). dc_tls c = None)"
    by (force simp: tls_names_def filter_empty_conv)
  have https: "(run_https run = None \<longleftrightarrow> \<not> has_domains sm) \<and>
      (\<forall>port sm'. run_https run = Some (port, sm') \<longrightarrow>
         port = https_port (cfg_server ?cfg) \<and> build lib sm = Inr sm')"
    using assms(1,2) set ds by (auto simp: startup_def Let_def split: sum.splits if_splits)
  have "\<exists>acc. acceptor sm' = Some acc \<and> map fst (acc_resolver acc) = tls_names (cfg_domains cfg)"
    if "build lib sm = Inr sm'" for sm'
    using build_acceptor [OF that] names by simp
  moreover have "lb_get m d = Some (load_balancer_new c)" "map_of (cfg_domains cfg) d = Some c"
    if "(d, c) \<in> set (cfg_domains cfg)" for d c
    using spec distinct_map_of_rev [OF assms(3) that, of lb_manager_new load_balancer_new] that assms(3)
    by (simp_all add: lb_get_def)
  ultimately show ?thesis
    using run ports some https unfolding tls_names_def by (auto simp: case_prod_beta)
qed

definition demo_config :: raw_config where
  "demo_config =
     \<lparr>raw_server_cfg = None,
      raw_domains = Some [(''d'', bare_domain\<lparr>raw_tls_cfg := Some \<lparr>raw_cert = Some ''c'', raw_key = Some ''k''\<rparr>\<rparr>)]\<rparr>"

definition demo_tls :: tls_library where
  "demo_tls =
     \<lparr>tl_open = Some, tl_seekable = \<lambda>_. True, tl_certs = \<lambda>f. [Some f], tl_pkcs8_keys = \<lambda>_. [],
      tl_rsa_keys = \<lambda>_. [], tl_ec_keys = \<lambda>f. [Some f], tl_signing_key = \<lambda>_. Some ''s'',
      tl_accepts_name = \<lambda>_ _ _. True\<rparr>"

definition demo_args :: args where
  "demo_args = \<lparr>arg_config = ''curf.yml'', arg_http_port = Some 8080, arg_https_port = None\<rparr>"

theorem startup_wires_domains_witness:
  "\<exists>run. startup (\<lambda>_. Some []) (\<lambda>_. Some demo_config) demo_tls demo_args = Inr run \<and>
     run_http_port run = 8080 \<and> run_https run \<noteq> None"
proof -
  let ?domain = "\<lparr>dc_backends = [], dc_load_balance = RoundRobin, dc_tls = Some \<lparr>tls_cert = ''c'', tls_key = ''k''\<rparr>,
     dc_static_files = None, dc_redirect_to_https = False, dc_health_check = health_check_default,
     dc_headers = []\<rparr>"
  have cfg: "config_load (\<lambda>_. Some []) (\<lambda>_. Some demo_config) (arg_config demo_args) =
      Inr \<lparr>cfg_server = server_config_default, cfg_domains = [(''d'', ?domain)]\<rparr>"
    by (simp add: config_load_def config_of_def demo_config_def required_def domain_config_of_def
        bare_domain_def tls_config_of_def default_load_balance_def)
  then obtain run where run: "startup (\<lambda>_. Some []) (\<lambda>_. Some demo_config) demo_tls demo_args = Inr run"
    by (simp add: startup_def apply_overrides_def demo_args_def Let_def ssl_add_domain_def demo_tls_def
        load_cert_and_key_def load_key_def unwrap_or_default_def ssl_manager_new_def has_domains_def
        build_def)
  have "distinct (map fst (cfg_domains \<lparr>cfg_server = server_config_default, cfg_domains = [(''d'', ?domain)]\<rparr>))"
    by simp
  from startup_wires_domains [OF run cfg this] run show ?thesis by (simp add: demo_args_def)
qed


section \<open>Coming up\<close>

text \<open>
  Coming up fails only if the HTTPS listener cannot bind its port. A program without TLS
  domains always comes up, even when it got no port to listen on; the configured listeners are up
  exactly when they could bind.
\<close>

theorem listeners_after_bring_up:
  "bring_up bind run =
     (case run_https run of
        None \<Rightarrow> Up (filter (\<lambda>l. bind l (listen_addr (run_http_port run))) [Http])
      | Some (port, sm) \<Rightarrow>
          if bind Https (listen_addr port)
          then Up (filter (\<lambda>l. bind l (listen_addr (if l = Http then run_http_port run else port))) [Http, Https])
          else CannotBind (listen_addr port))"
  by (auto simp: bring_up_def serve_http_up_def serve_https_up_def split: option.split)

lemma config_path_default:
  "args_parse cli argv = Inr a \<Longrightarrow> cli argv = Inr m \<Longrightarrow> cli_config m = None \<Longrightarrow> arg_config a = ''curf.yml''"
  by (auto simp: args_parse_def and_then_def)

end
