(* ===== verification/System.thy ===== *)
theory System
  imports Requests ServerProps Probing
begin

text \<open>
  The running program of \<^verbatim>\<open>src/src/main.rs\<close> with everything that shares its state: the connections
  of both listeners, the requests that wait for a backend, the WebSocket tunnels, and the health
  check tasks of \<^verbatim>\<open>src/src/health_check.rs\<close>, one step of any of them at a time. A request is two
  steps, \<open>begin_request\<close> and \<open>end_request\<close>, or is cancelled when its future is dropped; a health
  check is a step per probe. In-flight requests are kept apart from the connections because an HTTP/2
  stream runs as a task of its own.
\<close>

section \<open>State\<close>

text \<open>A health check task with the backends it has still to probe in the current round.\<close>

type_synonym ticking = "health_task \<times> string list"

record 'sem system =
  sy_server :: "'sem server"
  sy_pending :: "pending multiset"
  sy_tunnels :: "pending multiset"
  sy_tasks :: "ticking list"

definition system_new :: "'sem semaphores \<Rightarrow> running \<Rightarrow> 'sem system" where
  "system_new sem run =
     \<lparr>sy_server = server_new sem run, sy_pending = {#}, sy_tunnels = {#},
      sy_tasks = map (\<lambda>t. (t, [])) (run_tasks run)\<rparr>"

definition with_server :: "('sem server \<Rightarrow> 'sem server) \<Rightarrow> 'sem system \<Rightarrow> 'sem system" where
  "with_server f s = s\<lparr>sy_server := f (sy_server s)\<rparr>"

definition with_proxy :: "(proxy_state \<Rightarrow> proxy_state) \<Rightarrow> 'sem system \<Rightarrow> 'sem system" where
  "with_proxy f = with_server (\<lambda>sv. sv\<lparr>sv_proxy := f (sv_proxy sv)\<rparr>)"

abbreviation sy_proxy :: "'sem system \<Rightarrow> proxy_state" where
  "sy_proxy s \<equiv> sv_proxy (sy_server s)"

abbreviation balancer :: "'sem system \<Rightarrow> string \<Rightarrow> load_balancer option" where
  "balancer s \<equiv> lb_get (ps_lb_manager (sy_proxy s))"

section \<open>Steps\<close>

definition start_request ::
    "platform \<Rightarrow> proxy_handler \<Rightarrow> clocks \<Rightarrow> listener \<Rightarrow> ip_addr \<Rightarrow> request \<Rightarrow> 'sem system \<Rightarrow> 'sem system" where
  "start_request pf h ck l ip req s =
     (let (r, st) = begin_request pf (h\<lparr>ph_security := sv_checker (sy_server s)\<rparr>) ck ip req (l = Https)
                      (sy_proxy s);
          s = with_proxy (\<lambda>_. st) s
      in case r of Inl _ \<Rightarrow> s | Inr p \<Rightarrow> s\<lparr>sy_pending := add_mset p (sy_pending s)\<rparr>)"

definition finish_request ::
    "platform \<Rightarrow> proxy_handler \<Rightarrow> pending \<Rightarrow> 'sem system \<Rightarrow> 'sem system" where
  "finish_request pf h p s =
     (let r = asked pf h p
      in (with_proxy (\<lambda>st. snd (end_request pf h p r st)) s)
           \<lparr>sy_pending := sy_pending s - {#p#},
            sy_tunnels := (if opens_tunnel p r then add_mset p (sy_tunnels s) else sy_tunnels s)\<rparr>)"

definition drop_request :: "pending \<Rightarrow> 'sem system \<Rightarrow> 'sem system" where
  "drop_request p s =
     (with_proxy (cancel_request p) s)\<lparr>sy_pending := sy_pending s - {#p#}\<rparr>"

text \<open>The end of a probe: its outcome is reported, and the next backend is up.\<close>

definition probe_step :: "network \<Rightarrow> u64 \<Rightarrow> nat \<Rightarrow> health_task \<Rightarrow> string \<Rightarrow> string list \<Rightarrow> 'sem system \<Rightarrow> 'sem system" where
  "probe_step net now i t url urls s =
     (with_proxy (update_lb (ht_domain t) (report_probe net now (ht_config t) url)) s)
       \<lparr>sy_tasks := (sy_tasks s)[i := (t, urls)]\<rparr>"

text \<open>
  A request in flight occupies memory, so there are fewer than \<open>2^64 - 1\<close> of them. An interval of
  zero seconds ends the task before its first tick. After a panic the steps go on as if only the
  request or task were gone, which is so without \<^verbatim>\<open>panic = "abort"\<close>; with it the process ends there,
  and what can follow is nothing rather than one of these steps.
\<close>

inductive system_step :: "'sem semaphores \<Rightarrow> proxy_handler \<Rightarrow> 'sem system \<Rightarrow> 'sem system \<Rightarrow> bool"
  for sem h where
  Arrives: "system_step sem h s (with_server (accept_conn sem l ip) s)"
| Secured: "(Https, ip, Handshake) \<in># sv_conns (sy_server s) \<Longrightarrow>
    system_step sem h s (with_server (handshake_done ip) s)"
| Insecure: "(Https, ip, Handshake) \<in># sv_conns (sy_server s) \<Longrightarrow>
    system_step sem h s (with_server (handshake_failed sem ip) s)"
| Closes: "(l, ip, Serving) \<in># sv_conns (sy_server s) \<Longrightarrow>
    system_step sem h s (with_server (close_conn sem l ip Serving) s)"
| Asks: "(l, ip, Serving) \<in># sv_conns (sy_server s) \<Longrightarrow> size (sy_pending s) < 2 ^ 64 - 1 \<Longrightarrow>
    system_step sem h s (start_request pf h ck l ip req s)"
| Answers: "p \<in># sy_pending s \<Longrightarrow> system_step sem h s (finish_request pf h p s)"
| Cancels: "p \<in># sy_pending s \<Longrightarrow> system_step sem h s (drop_request p s)"
| Untunnels: "p \<in># sy_tunnels s \<Longrightarrow>
    system_step sem h s (s\<lparr>sy_tunnels := sy_tunnels s - {#p#}\<rparr>)"
| Ticks: "i < length (sy_tasks s) \<Longrightarrow> sy_tasks s ! i = (t, []) \<Longrightarrow> hc_interval_secs (ht_config t) \<noteq> 0 \<Longrightarrow>
    balancer s (ht_domain t) \<noteq> None \<Longrightarrow>
    system_step sem h s (s\<lparr>sy_tasks := (sy_tasks s)[i := (t, ht_backends t)]\<rparr>)"
| Probes: "i < length (sy_tasks s) \<Longrightarrow> sy_tasks s ! i = (t, url # urls) \<Longrightarrow>
    system_step sem h s (probe_step net now i t url urls s)"

inductive system_reachable :: "'sem semaphores \<Rightarrow> running \<Rightarrow> 'sem system \<Rightarrow> bool" for sem run where
  Boot: "unat (run_max_connections run) \<le> sem_max sem \<Longrightarrow> system_reachable sem run (system_new sem run)"
| Next: "system_reachable sem run s \<Longrightarrow> system_step sem (run_proxy run) s s' \<Longrightarrow> system_reachable sem run s'"

inductive_cases system_stepE: "system_step sem h s s'"

text \<open>Probing backend after backend is the round of \<open>HealthCheck\<close>.\<close>

lemma health_round_probes:
  "health_round nets clk (ht_config t) i urls lb =
     fst (foldl (\<lambda>(lb, j) url. (report_probe (nets j) (clk j) (ht_config t) url lb, Suc j)) (lb, i) urls)"
  by (induction urls arbitrary: i lb) simp_all

section \<open>Frames\<close>

lemma with_simps [simp]:
  "sy_server (with_server f s) = f (sy_server s)" "sy_pending (with_server f s) = sy_pending s"
  "sy_tunnels (with_server f s) = sy_tunnels s" "sy_tasks (with_server f s) = sy_tasks s"
  "sy_server (with_proxy g s) = (sy_server s)\<lparr>sv_proxy := g (sv_proxy (sy_server s))\<rparr>"
  "sy_pending (with_proxy g s) = sy_pending s"
  "sy_tunnels (with_proxy g s) = sy_tunnels s" "sy_tasks (with_proxy g s) = sy_tasks s"
  by (simp_all add: with_server_def with_proxy_def)

lemma connection_steps_keep_proxy [simp]:
  "sv_proxy (accept_conn sem l ip sv) = sv_proxy sv"
  "sv_proxy (close_conn sem l ip ph sv) = sv_proxy sv"
  "sv_proxy (handshake_done ip sv) = sv_proxy sv"
  "sv_proxy (handshake_failed sem ip sv) = sv_proxy sv"
  by (simp_all add: accept_conn_def close_conn_def handshake_done_def handshake_failed_def
      split: option.split prod.split sum.split)

lemma start_request_simps:
  "sy_tunnels (start_request pf h ck l ip req s) = sy_tunnels s"
  "sy_tasks (start_request pf h ck l ip req s) = sy_tasks s"
  "sy_server (start_request pf h ck l ip req s) =
     (sy_server s)\<lparr>sv_proxy := snd (begin_request pf (h\<lparr>ph_security := sv_checker (sy_server s)\<rparr>) ck ip req
       (l = Https) (sy_proxy s))\<rparr>"
  "sy_pending (start_request pf h ck l ip req s) =
     (case fst (begin_request pf (h\<lparr>ph_security := sv_checker (sy_server s)\<rparr>) ck ip req (l = Https) (sy_proxy s)) of
        Inl _ \<Rightarrow> sy_pending s | Inr p \<Rightarrow> add_mset p (sy_pending s))"
  by (simp_all add: start_request_def case_prod_beta Let_def split: sum.split)

lemma request_end_simps:
  "sy_server (finish_request pf h p s) = (sy_server s)\<lparr>sv_proxy := snd (end_request pf h p (asked pf h p) (sy_proxy s))\<rparr>"
  "sy_pending (finish_request pf h p s) = sy_pending s - {#p#}"
  "sy_tasks (finish_request pf h p s) = sy_tasks s"
  "sy_server (drop_request p s) = (sy_server s)\<lparr>sv_proxy := cancel_request p (sy_proxy s)\<rparr>"
  "sy_pending (drop_request p s) = sy_pending s - {#p#}"
  "sy_tasks (drop_request p s) = sy_tasks s" "sy_tunnels (drop_request p s) = sy_tunnels s"
  by (simp_all add: finish_request_def drop_request_def Let_def)

lemma probe_step_simps:
  "sy_server (probe_step net now i t url urls s) =
     (sy_server s)\<lparr>sv_proxy := update_lb (ht_domain t) (report_probe net now (ht_config t) url) (sy_proxy s)\<rparr>"
  "sy_pending (probe_step net now i t url urls s) = sy_pending s"
  "sy_tunnels (probe_step net now i t url urls s) = sy_tunnels s"
  "sy_tasks (probe_step net now i t url urls s) = (sy_tasks s)[i := (t, urls)]"
  by (simp_all add: probe_step_def)

end
