(* ===== verification/SystemProps.thy ===== *)
theory SystemProps
  imports System
begin

text \<open>
  What holds of the running program, \<^verbatim>\<open>src/src/main.rs\<close> with all its parts: it refines the two
  listeners of \<open>Server\<close>, the balancers count exactly the requests in flight, requests only go to
  backends their domain is configured with, and nothing leaks.
\<close>

section \<open>The listeners\<close>

text \<open>The connection accounting of the system, with the state of the handler masked.\<close>

definition listeners :: "proxy_state \<Rightarrow> 'sem system \<Rightarrow> 'sem server" where
  "listeners st s = (sy_server s)\<lparr>sv_proxy := st\<rparr>"

lemma connection_steps_mask:
  "accept_conn sem l ip (sv\<lparr>sv_proxy := st\<rparr>) = (accept_conn sem l ip sv)\<lparr>sv_proxy := st\<rparr>"
  "close_conn sem l ip ph (sv\<lparr>sv_proxy := st\<rparr>) = (close_conn sem l ip ph sv)\<lparr>sv_proxy := st\<rparr>"
  "handshake_done ip (sv\<lparr>sv_proxy := st\<rparr>) = (handshake_done ip sv)\<lparr>sv_proxy := st\<rparr>"
  "handshake_failed sem ip (sv\<lparr>sv_proxy := st\<rparr>) = (handshake_failed sem ip sv)\<lparr>sv_proxy := st\<rparr>"
  by (simp_all add: accept_conn_def close_conn_def handshake_done_def handshake_failed_def
      split: option.split prod.split sum.split)

lemma step_listeners:
  assumes "system_step sem h s s'"
  shows "listeners st s' = listeners st s \<or> server_step sem h (listeners st s) (listeners st s')"
  using assms
proof cases
  case (Arrives l ip)
  then have "listeners st s' = accept_conn sem l ip (listeners st s)"
    by (simp add: listeners_def connection_steps_mask)
  then show ?thesis by (simp add: server_step.Arrive)
next
  case (Secured ip)
  then have "listeners st s' = handshake_done ip (listeners st s)"
    by (simp add: listeners_def connection_steps_mask)
  with Secured show ?thesis by (simp add: server_step.TlsDone listeners_def)
next
  case (Insecure ip)
  then have "listeners st s' = handshake_failed sem ip (listeners st s)"
    by (simp add: listeners_def connection_steps_mask)
  with Insecure show ?thesis by (simp add: server_step.TlsFailed listeners_def)
next
  case (Closes l ip)
  then have "listeners st s' = close_conn sem l ip Serving (listeners st s)"
    by (simp add: listeners_def connection_steps_mask)
  with Closes show ?thesis by (simp add: server_step.Close listeners_def)
qed (simp_all add: listeners_def start_request_simps request_end_simps probe_step_simps)

lemma system_listeners:
  "system_reachable sem run s \<Longrightarrow> reachable sem run (listeners (run_state run) s)"
proof (induction rule: system_reachable.induct)
  case Boot
  have "listeners (run_state run) (system_new sem run) = server_new sem run"
    by (simp add: listeners_def system_new_def server_new_def)
  with Boot show ?case by (simp add: reachable.Start)
next
  case (Next s s')
  then show ?case using step_listeners [of sem "run_proxy run" s s' "run_state run"] reachable.Step by metis
qed

section \<open>The balancers\<close>

text \<open>The guards the requests in flight hold on the balancer of a domain.\<close>

definition guards_on :: "string \<Rightarrow> 'sem system \<Rightarrow> nat multiset" where
  "guards_on host s = image_mset pd_guard {#p \<in># sy_pending s. pd_host p = host#}"

text \<open>A request in flight holds a guard of its domain's balancer and knows the URL of that backend.\<close>

definition routed :: "'sem system \<Rightarrow> pending \<Rightarrow> bool" where
  "routed s p \<longleftrightarrow>
     (\<exists>lb. balancer s (pd_host p) = Some lb \<and> pd_guard p < length (lb_backends lb) \<and>
        pd_url p = lb_urls lb ! pd_guard p)"

definition balancers_ok :: "running \<Rightarrow> 'sem system \<Rightarrow> bool" where
  "balancers_ok run s \<longleftrightarrow>
     (\<forall>host. map_option lb_shape (balancer s host) =
        map_option lb_shape (lb_get (ps_lb_manager (run_state run)) host)) \<and>
     (\<forall>host lb. balancer s host = Some lb \<longrightarrow> guards.tracks lb (guards_on host s)) \<and>
     (\<forall>p \<in># sy_pending s. routed s p)"

lemma routed_shape:
  assumes "routed s p"
    and "map_option lb_shape (balancer s' (pd_host p)) = map_option lb_shape (balancer s (pd_host p))"
  shows "routed s' p"
  using assms by (auto simp: routed_def lb_shape_def map_option_eq_Some dest: shape_length)
    (metis lb_shape_def lb_urls_length)

text \<open>A change of one balancer that keeps its shape, together with the guards on it.\<close>

lemma balancers_okI:
  assumes ok: "balancers_ok run s"
    and lb: "\<And>host'. balancer s' host' = (if host' = host then map_option f (balancer s host) else balancer s host')"
    and shape: "\<And>lb. lb_shape (f lb) = lb_shape lb"
    and here: "\<And>lb. balancer s host = Some lb \<Longrightarrow> guards.tracks (f lb) (guards_on host s')"
    and there: "\<And>host'. host' \<noteq> host \<Longrightarrow> guards_on host' s' = guards_on host' s"
    and pend: "\<And>p. p \<in># sy_pending s' \<Longrightarrow> p \<in># sy_pending s \<or> routed s' p"
  shows "balancers_ok run s'"
proof -
  have sh: "map_option lb_shape (balancer s' host') = map_option lb_shape (balancer s host')" for host'
    using lb shape by (cases "balancer s host") (auto simp: comp_def option.map_comp)
  have "guards.tracks lb' (guards_on host' s')" if "balancer s' host' = Some lb'" for host' lb'
  proof (cases "host' = host")
    case True
    with that lb here show ?thesis by auto
  next
    case False
    with that lb there ok show ?thesis by (simp add: balancers_ok_def)
  qed
  moreover have "routed s' p" if "p \<in># sy_pending s'" for p
    using pend [OF that] ok sh routed_shape [of s p s'] by (auto simp: balancers_ok_def)
  ultimately show ?thesis using ok sh by (simp add: balancers_ok_def)
qed

lemma balancers_ok_same:
  assumes "balancers_ok run s" and "sv_proxy (sy_server s') = sv_proxy (sy_server s)"
    and "sy_pending s' = sy_pending s"
  shows "balancers_ok run s'"
  using assms by (simp add: balancers_ok_def guards_on_def routed_def)

lemma guards_on_remove:
  assumes "p \<in># sy_pending s" and "sy_pending s' = sy_pending s - {#p#}"
  shows "guards_on host s' = (if host = pd_host p then guards_on host s - {#pd_guard p#} else guards_on host s)"
    and "pd_guard p \<in># guards_on (pd_host p) s"
proof -
  obtain M where "sy_pending s = add_mset p M" using assms(1) by (rule mset_add)
  then show "guards_on host s' = (if host = pd_host p then guards_on host s - {#pd_guard p#} else guards_on host s)"
    and "pd_guard p \<in># guards_on (pd_host p) s"
    using assms(2) by (auto simp: guards_on_def)
qed

text \<open>A request ends, with or without feedback.\<close>

lemma end_ok:
  assumes ok: "balancers_ok run s" and p: "p \<in># sy_pending s"
    and s': "sy_pending s' = sy_pending s - {#p#}"
      "sv_proxy (sy_server s') = update_lb (pd_host p) (\<lambda>lb. drop_guard (pd_guard p) (g lb)) (sy_proxy s)"
    and g: "\<And>lb. lb_shape (g lb) = lb_shape lb" "\<And>lb. lb_active (g lb) = lb_active lb"
  shows "balancers_ok run s'"
proof (rule balancers_okI [OF ok, where host = "pd_host p" and f = "\<lambda>lb. drop_guard (pd_guard p) (g lb)"])
  fix lb
  assume "balancer s (pd_host p) = Some lb"
  then have "guards.tracks (g lb) (guards_on (pd_host p) s)"
    using ok g(2) by (simp add: balancers_ok_def guards.tracks_def)
  from guards.tracks_rel [OF this guards_on_remove(2) [OF p s'(1)]]
  show "guards.tracks (drop_guard (pd_guard p) (g lb)) (guards_on (pd_host p) s')"
    using guards_on_remove(1) [OF p s'(1), of "pd_host p"] by simp
qed (use s' g guards_on_remove(1) [OF p s'(1)] in \<open>auto simp: lb_get_update shape_simps dest: in_diffD\<close>)


text \<open>A request starts.\<close>

lemma size_guards_on: "size (guards_on host s) \<le> size (sy_pending s)"
  by (simp add: guards_on_def size_filter_mset_lesseq)

lemma start_ok:
  assumes ok: "balancers_ok run s" and room: "size (sy_pending s) < 2 ^ 64 - 1"
  shows "balancers_ok run (start_request pf h ck l ip req s)"
proof -
  let ?s = "start_request pf h ck l ip req s"
  let ?h = "h\<lparr>ph_security := sv_checker (sy_server s)\<rparr>"
  have upd: "guards.tracks lb' (case r of None \<Rightarrow> guards_on host s | Some (_, i) \<Rightarrow> add_mset i (guards_on host s))"
    if "balancer s host = Some lb" "select (ck_unix ck) (Some ip) lb = (r, lb')" for host lb r lb'
    using ok that size_guards_on [of host s] room
    by (intro select_tracks [of lb]) (auto simp: balancers_ok_def)
  show ?thesis
  proof (cases rule: begin_request_cases [where pf = pf and h = ?h and ck = ck and ip = ip and req = req
        and is_tls = "l = Https" and st = "sy_proxy s"])
    case (same r)
    then have "sy_pending ?s = sy_pending s" "\<And>host. balancer ?s host = balancer s host"
      by (simp_all add: start_request_simps)
    with ok show ?thesis by (simp add: balancers_ok_def guards_on_def routed_def)
  next
    case (down r host lb lb')
    then have s': "sy_pending ?s = sy_pending s" "\<And>host'. balancer ?s host' = (if host' = host then Some lb' else balancer s host')"
      by (simp_all add: start_request_simps lb_get_def)
    have shape: "lb_shape lb' = lb_shape lb" using down(3) shape_simps(4) [of "ck_unix ck" "Some ip" lb] by simp
    have "\<And>host'. guards_on host' ?s = guards_on host' s" using s'(1) by (simp add: guards_on_def)
    moreover have "map_option lb_shape (balancer ?s host') = map_option lb_shape (balancer s host')" for host'
      using s'(2) down(2) shape by simp
    ultimately show ?thesis
      using ok s' upd [OF down(2,3)] routed_shape [of s _ ?s] by (auto simp: balancers_ok_def)
  next
    case (waits p lb lb')
    then have s': "sy_pending ?s = add_mset p (sy_pending s)"
      "\<And>host'. balancer ?s host' = (if host' = pd_host p then Some lb' else balancer s host')"
      by (simp_all add: start_request_simps lb_get_def)
    have shape: "lb_shape lb' = lb_shape lb" using waits(3) shape_simps(4) [of "ck_unix ck" "Some ip" lb] by simp
    have sh: "map_option lb_shape (balancer ?s host') = map_option lb_shape (balancer s host')" for host'
      using s'(2) waits(2) shape by simp
    have "guards_on host' ?s = (if host' = pd_host p then add_mset (pd_guard p) (guards_on host' s) else guards_on host' s)" for host'
      using s'(1) by (simp add: guards_on_def)
    moreover have "routed ?s p"
    proof -
      have "fst (select (ck_unix ck) (Some ip) lb) = Some (pd_url p, pd_guard p)" using waits(3) by simp
      then obtain k where "pd_guard p < length (lb_backends lb)" "pd_url p = b_url (lb_backends lb ! pd_guard p)"
        "healthy_at (ck_unix ck k) (lb_backends lb ! pd_guard p)" by (rule select_hit)
      then have "pd_guard p < length (lb_backends lb')" "pd_url p = lb_urls lb' ! pd_guard p"
        using shape_length [OF shape] shape by (simp_all add: lb_shape_def lb_urls_def)
      then show ?thesis using s'(2) by (simp add: routed_def)
    qed
    ultimately show ?thesis
      using ok s' sh upd [OF waits(2,3)] routed_shape [of s _ ?s] by (auto simp: balancers_ok_def)
  qed
qed

lemma report_probe_simps:
  "lb_shape (report_probe net now t url lb) = lb_shape lb"
  "map b_active (lb_backends (report_probe net now t url lb)) = map b_active (lb_backends lb)"
  by (simp_all add: report_probe_def shape_simps feedback_frame)

lemma step_balancers:
  assumes "system_step sem h s s'" and ok: "balancers_ok run s"
  shows "balancers_ok run s'"
  using assms(1)
proof cases
  case (Asks l ip pf ck req)
  with ok show ?thesis by (simp add: start_ok)
next
  case (Answers p pf)
  show ?thesis
    by (rule end_ok [OF ok Answers(2), where g = "feedback p (asked pf h p)"])
      (simp_all add: Answers request_end_simps end_request_def feedback_def shape_simps)
next
  case (Cancels p)
  show ?thesis
    by (rule end_ok [OF ok Cancels(2), where g = "\<lambda>lb. lb"])
      (simp_all add: Cancels request_end_simps cancel_request_def)
next
  case (Probes i t url urls net now)
  have same: "guards_on host s' = guards_on host s" for host
    using Probes(1) by (simp add: guards_on_def probe_step_simps)
  show ?thesis
  proof (rule balancers_okI [OF ok, where host = "ht_domain t" and f = "report_probe net now (ht_config t) url"])
    fix lb
    assume "balancer s (ht_domain t) = Some lb"
    with ok show "guards.tracks (report_probe net now (ht_config t) url lb) (guards_on (ht_domain t) s')"
      using tracks_cong [OF report_probe_simps(2)] by (simp add: balancers_ok_def same)
  qed (use Probes(1) same in \<open>simp_all add: probe_step_simps lb_get_update report_probe_simps\<close>)
qed (rule balancers_ok_same [OF ok]; simp)+

definition fresh_balancers :: "running \<Rightarrow> bool" where
  "fresh_balancers run \<longleftrightarrow>
     (\<forall>host lb. lb_get (ps_lb_manager (run_state run)) host = Some lb \<longrightarrow> (\<exists>cfg. lb = load_balancer_new cfg))"

lemma new_balancer_tracks: "guards.tracks (load_balancer_new cfg) {#}"
  by (simp add: guards.tracks_def lb_active_def load_balancer_new_def backend_new_def)

lemma system_balancers:
  assumes "system_reachable sem run s" and "fresh_balancers run"
  shows "balancers_ok run s"
  using assms(1)
proof (induction rule: system_reachable.induct)
  case Boot
  show ?case
    using assms(2) new_balancer_tracks
    by (auto simp: balancers_ok_def fresh_balancers_def system_new_def server_new_def guards_on_def)
next
  case (Next s s')
  then show ?case using step_balancers by blast
qed

lemma startup_balancers:
  assumes "startup read_file yaml lib a = Inr run"
    and "config_load read_file yaml (arg_config a) = Inr cfg"
    and "lb_get (ps_lb_manager (run_state run)) d = Some lb"
  shows "\<exists>c. (d, c) \<in> set (cfg_domains cfg) \<and> lb = load_balancer_new c"
proof -
  have ds: "cfg_domains (apply_overrides a cfg) = cfg_domains cfg"
    by (simp add: apply_overrides_def Let_def split: option.splits)
  then obtain m sm ts where set: "setup_domains lib (cfg_domains cfg) lb_manager_new ssl_manager_new [] = Inr (m, sm, ts)"
    and m: "ps_lb_manager (run_state run) = m"
    using assms(1,2) by (auto simp: startup_def Let_def split: sum.splits if_splits)
  have "map_of (rev (map (\<lambda>(d, c). (d, load_balancer_new c)) (cfg_domains cfg))) d = Some lb"
    using setup_domains_spec [OF set] assms(3) m by (simp add: lb_get_def lb_manager_new_def)
  then show ?thesis by (auto dest!: map_of_SomeD)
qed


section \<open>A small program in operation\<close>

definition demo_raw :: raw_config where
  "demo_raw =
     \<lparr>raw_server_cfg = Some (no_server\<lparr>raw_rate_limit_rps := Some 0, raw_rate_limit_burst := Some 0\<rparr>),
      raw_domains = Some [(''d'', bare_domain\<lparr>raw_backends := Some [''http://b:8080'']\<rparr>)]\<rparr>"

definition demo_domain :: domain_config where
  "demo_domain = test_domain\<lparr>dc_headers := []\<rparr>"

definition demo_server :: server_config where
  "demo_server = server_config_default\<lparr>rate_limit_rps := 0, rate_limit_burst := 0\<rparr>"

definition no_args :: args where
  "no_args = \<lparr>arg_config = ''curf.yml'', arg_http_port = None, arg_https_port = None\<rparr>"

definition demo_run :: running where
  "demo_run =
     \<lparr>run_proxy = proxy_handler_new
        (security_checker_new (max_connections_per_ip demo_server) (sv_security demo_server))
        (timeout_secs demo_server) [(''d'', demo_domain)],
      run_state = \<lparr>ps_rate_limiter = rate_limiter_new 0 0,
                   ps_lb_manager = [''d'' \<mapsto> load_balancer_new demo_domain]\<rparr>,
      run_security = security_checker_new (max_connections_per_ip demo_server) (sv_security demo_server),
      run_tasks = start_health_checks [(''d'', demo_domain)], run_http_port = 80, run_https = None,
      run_max_connections = max_connections demo_server\<rparr>"

lemma demo_load:
  "config_load (\<lambda>_. Some []) (\<lambda>_. Some demo_raw) (arg_config no_args) =
     Inr \<lparr>cfg_server = demo_server, cfg_domains = [(''d'', demo_domain)]\<rparr>"
  by (simp add: config_load_def config_of_def demo_raw_def required_def domain_config_of_def
      bare_domain_def default_load_balance_def demo_domain_def test_domain_def demo_server_def
      server_config_of_def no_server_def server_config_default_def)

lemma demo_startup: "startup (\<lambda>_. Some []) (\<lambda>_. Some demo_raw) demo_tls no_args = Inr demo_run"
  unfolding startup_def demo_load
  by (simp add: apply_overrides_def no_args_def Let_def demo_domain_def test_domain_def add_domain_def
      lb_manager_new_def ssl_manager_new_def has_domains_def demo_run_def demo_server_def
      server_config_default_def default_defs)

definition demo_pending :: pending where
  "demo_pending =
     \<lparr>pd_host = ''d'', pd_ip = V4 1, pd_req = get_request_for ''/a'' no_headers, pd_upgrade = False,
      pd_url = ''http://b:8080'', pd_guard = 0\<rparr>"

definition demo_open :: "nat system" where
  "demo_open = with_server (accept_conn counting Http (V4 1)) (system_new counting demo_run)"

definition demo_busy :: "nat system" where
  "demo_busy =
     start_request (test_platform ConnectError) (run_proxy demo_run) test_clocks Http (V4 1)
       (get_request_for ''/a'' no_headers) demo_open"

lemma verdict_flags:
  assumes "sc_flags (ph_security h') = sc_flags (ph_security h)"
  shows "verdict pf h' req = verdict pf h req"
  unfolding verdict_def check_request_def assms ..

lemma demo_open_simps:
  "sv_conns (sy_server demo_open) = {#(Http, V4 1, Serving)#}" "sy_pending demo_open = {#}"
  "sc_flags (sv_checker (sy_server demo_open)) = security_flags_default"
  "sy_proxy demo_open = run_state demo_run"
  by (simp_all add: demo_open_def accept_conn_def system_new_def server_new_def counting_def demo_run_def
      check_and_acquire_connection_def security_checker_new_def first_phase_def demo_server_def
      server_config_default_def default_defs)

lemma demo_begin:
  "fst (begin_request (test_platform ConnectError)
     ((run_proxy demo_run)\<lparr>ph_security := sv_checker (sy_server demo_open)\<rparr>) test_clocks (V4 1)
     (get_request_for ''/a'' no_headers) (Http = Https) (sy_proxy demo_open)) = Inr demo_pending"
proof -
  let ?pf = "test_platform ConnectError" and ?req = "get_request_for ''/a'' no_headers"
  let ?h = "(run_proxy demo_run)\<lparr>ph_security := sv_checker (sy_server demo_open)\<rparr>"
  have "verdict ?pf ?h ?req = Inr ()"
    using test_verdict(1) [of ConnectError no_headers] verdict_flags [of test_handler ?h ?pf ?req]
    by (simp add: demo_open_simps test_handler_def proxy_handler_new_def security_checker_new_def)
  then have passes: "passes ?pf ?h test_clocks (V4 1) ?req (sy_proxy demo_open)"
    using test_allowed [of "V4 1" 0]
    by (simp add: passes_def demo_open_simps demo_run_def test_state_def test_clocks_def)
  have ws: "\<not> is_websocket_upgrade ?pf ?req"
    by (simp add: is_websocket_upgrade_def header_text_def test_defs eq_ignore_ascii_case_def ascii_lower_def)
  have "redirect_location ?h ?req (request_host ?pf ?req) (Http = Https) = None"
    "serve_static ?pf ?h ?req (request_host ?pf ?req) = NotServed"
    unfolding test_host
    by (simp_all add: redirect_location_def serve_static_def demo_run_def proxy_handler_new_def demo_domain_def
        test_domain_def)
  then have to: "to_backend ?pf ?h ?req (Http = Https)" by (simp add: to_backend_def)
  have sel: "fst (select clk ip (load_balancer_new demo_domain)) = Some (''http://b:8080'', 0)" for clk ip
    by (simp add: select_round_robin all_closed_def load_balancer_new_def demo_domain_def test_domain_def
        backend_new_def)
  obtain lb where "select (ck_unix test_clocks) (Some (V4 1)) (load_balancer_new demo_domain) =
      (Some (''http://b:8080'', 0), lb)"
    using sel [of "ck_unix test_clocks" "Some (V4 1)"] by (metis prod.collapse)
  then show ?thesis
    unfolding begin_backend [OF passes to] test_host
    by (simp add: ws demo_open_simps demo_run_def lb_get_def demo_pending_def Let_def)
qed

lemma demo_busy_simps:
  "sy_pending demo_busy = {#demo_pending#}" "sv_conns (sy_server demo_busy) = {#(Http, V4 1, Serving)#}"
  using demo_begin by (simp_all add: demo_busy_def start_request_simps demo_open_simps)

lemma demo_busy_reachable: "system_reachable counting demo_run demo_busy"
proof -
  have "system_reachable counting demo_run demo_open"
    unfolding demo_open_def
    by (rule Next [OF Boot Arrives])
      (simp add: demo_run_def demo_server_def server_config_default_def default_defs counting_def)
  moreover have "system_step counting (run_proxy demo_run) demo_open demo_busy"
    unfolding demo_busy_def by (rule Asks) (simp_all add: demo_open_simps)
  ultimately show ?thesis by (rule Next)
qed


section \<open>Counts, routes and leaks\<close>

lemma startup_loads:
  assumes "startup read_file yaml lib a = Inr run"
  obtains cfg where "config_load read_file yaml (arg_config a) = Inr cfg"
  using assms by (auto simp: startup_def split: sum.splits)

lemma startup_fresh:
  assumes "startup read_file yaml lib a = Inr run"
  shows "fresh_balancers run"
proof -
  obtain cfg where "config_load read_file yaml (arg_config a) = Inr cfg" by (rule startup_loads [OF assms])
  then show ?thesis using startup_balancers [OF assms] unfolding fresh_balancers_def by blast
qed

lemma startup_security:
  assumes "startup read_file yaml lib a = Inr run"
  obtains m fl where "run_security run = security_checker_new m fl"
  using assms by (auto simp: startup_def Let_def split: sum.splits prod.splits if_splits)

text \<open>
  C4: From start-up on, whatever clients, backends and health checks do, the active count of a
  backend is the number of requests in flight for its domain that were given this backend.
\<close>

theorem active_counts_are_requests_in_flight:
  assumes "startup read_file yaml lib a = Inr run" and "system_reachable sem run s"
    and "balancer s host = Some lb" and "i < length (lb_backends lb)"
  shows "unat (b_active (lb_backends lb ! i)) =
    size {#p \<in># sy_pending s. pd_host p = host \<and> pd_guard p = i#}"
proof -
  have "guards.tracks lb (guards_on host s)"
    using system_balancers [OF assms(2) startup_fresh [OF assms(1)]] assms(3) by (simp add: balancers_ok_def)
  then have "lb_active lb i = count (guards_on host s) i" by (simp add: guards.tracks_def)
  moreover have "count (image_mset f M) i = size {#p \<in># M. f p = i#}" for f :: "pending \<Rightarrow> nat" and M
    by (induction M) auto
  ultimately show ?thesis
    using assms(4) by (simp add: lb_active_def guards_on_def filter_filter_mset conj_commute)
qed

theorem active_counts_are_requests_in_flight_witness:
  "\<exists>lb. balancer demo_busy ''d'' = Some lb \<and> unat (b_active (lb_backends lb ! 0)) = 1"
proof -
  have ok: "balancers_ok demo_run demo_busy"
    by (rule system_balancers [OF demo_busy_reachable startup_fresh [OF demo_startup]])
  then have "routed demo_busy demo_pending" by (simp add: balancers_ok_def demo_busy_simps)
  then obtain lb where lb: "balancer demo_busy ''d'' = Some lb" "0 < length (lb_backends lb)"
    by (auto simp: routed_def demo_pending_def)
  from active_counts_are_requests_in_flight [OF demo_startup demo_busy_reachable this]
  have "unat (b_active (lb_backends lb ! 0)) = 1" by (simp add: demo_busy_simps demo_pending_def)
  with lb(1) show ?thesis by blast
qed

text \<open>
  C11: A request is only ever waiting for a backend that the configuration lists for the domain of
  its \<^verbatim>\<open>Host\<close> header, and the balancers keep the configured backends and strategy for good.
\<close>

theorem requests_reach_configured_backends:
  assumes "startup read_file yaml lib a = Inr run"
    and "config_load read_file yaml (arg_config a) = Inr cfg"
    and "system_reachable sem run s" and "p \<in># sy_pending s"
  shows "\<exists>c lb. (pd_host p, c) \<in> set (cfg_domains cfg) \<and> pd_url p \<in> set (dc_backends c) \<and>
    balancer s (pd_host p) = Some lb \<and> map b_url (lb_backends lb) = dc_backends c \<and>
    lb_strategy lb = dc_load_balance c"
proof -
  have ok: "balancers_ok run s" by (rule system_balancers [OF assms(3) startup_fresh [OF assms(1)]])
  with assms(4) have "routed s p" by (simp add: balancers_ok_def)
  then obtain lb where lb: "balancer s (pd_host p) = Some lb" "pd_guard p < length (lb_backends lb)"
    "pd_url p = lb_urls lb ! pd_guard p" by (auto simp: routed_def)
  from ok lb(1) obtain lb0 where lb0: "lb_get (ps_lb_manager (run_state run)) (pd_host p) = Some lb0"
    "lb_shape lb = lb_shape lb0"
    unfolding balancers_ok_def by (metis (no_types, lifting) map_option_eq_Some option.map(2))
  from startup_balancers [OF assms(1,2) lb0(1)] obtain c
    where c: "(pd_host p, c) \<in> set (cfg_domains cfg)" "lb0 = load_balancer_new c" by blast
  have shape: "map b_url (lb_backends lb) = dc_backends c" "lb_strategy lb = dc_load_balance c"
    using lb0(2) c(2)
    by (simp_all add: lb_shape_def lb_urls_def load_balancer_new_def backend_new_def comp_def)
  then have "pd_url p \<in> set (dc_backends c)"
    using lb(2,3) by (metis length_map lb_urls_def nth_mem)
  with c(1) lb(1) shape show ?thesis by blast
qed

theorem requests_reach_configured_backends_witness:
  "\<exists>c. pd_url demo_pending \<in> set (dc_backends c) \<and> (pd_host demo_pending, c) \<in> {(''d'', demo_domain)}"
proof -
  have "demo_pending \<in># sy_pending demo_busy" by (simp add: demo_busy_simps)
  from requests_reach_configured_backends [OF demo_startup demo_load demo_busy_reachable this]
  show ?thesis by auto
qed


text \<open>Dropping what is in flight, then closing what is connected.\<close>

abbreviation steps :: "'sem semaphores \<Rightarrow> proxy_handler \<Rightarrow> 'sem system \<Rightarrow> 'sem system \<Rightarrow> bool" where
  "steps sem h \<equiv> (system_step sem h)\<^sup>*\<^sup>*"

lemma drain_pending:
  "\<exists>s'. steps sem h s s' \<and> sy_pending s' = {#} \<and> sv_conns (sy_server s') = sv_conns (sy_server s)"
proof (induction "sy_pending s" arbitrary: s)
  case empty
  then show ?case by (intro exI [of _ s]) simp
next
  case (add p M)
  have p: "p \<in># sy_pending s" using add.hyps(2) by (metis union_single_eq_member)
  have M: "M = sy_pending (drop_request p s)" using add.hyps(2) [symmetric] by (simp add: request_end_simps)
  from add.hyps(1) [OF M] obtain s' where "steps sem h (drop_request p s) s'" "sy_pending s' = {#}"
    "sv_conns (sy_server s') = sv_conns (sy_server s)" by (auto simp: request_end_simps)
  then show ?case using converse_rtranclp_into_rtranclp [of "system_step sem h", OF Cancels [OF p]] by blast
qed

lemma handshake_phase:
  assumes "system_step sem h s s'" and "\<forall>ip. (Http, ip, Handshake) \<notin># sv_conns (sy_server s)"
  shows "(Http, ip, Handshake) \<notin># sv_conns (sy_server s')"
  using assms
proof cases
  case (Arrives l ip')
  then show ?thesis using assms(2)
    by (auto simp: accept_conn_def first_phase_def split: option.split prod.split sum.split listener.split)
qed (use assms(2) in \<open>auto simp: handshake_done_def handshake_failed_def close_conn_def
    start_request_simps request_end_simps probe_step_simps dest: in_diffD\<close>)

lemma reachable_phases:
  "system_reachable sem run s \<Longrightarrow> (Http, ip, Handshake) \<notin># sv_conns (sy_server s)"
proof (induction arbitrary: ip rule: system_reachable.induct)
  case (Next s s')
  then show ?case using handshake_phase [of sem "run_proxy run" s s'] by blast
qed (simp add: system_new_def server_new_def)

lemma drain_connections:
  assumes "\<forall>ip. (Http, ip, Handshake) \<notin># sv_conns (sy_server s)"
  shows "\<exists>s'. steps sem h s s' \<and> sv_conns (sy_server s') = {#} \<and> sy_pending s' = sy_pending s"
  using assms
proof (induction "sv_conns (sy_server s)" arbitrary: s)
  case empty
  then show ?case by (intro exI [of _ s]) simp
next
  case (add c M)
  obtain l ip ph where c: "c = (l, ip, ph)" by (cases c)
  have mem: "(l, ip, ph) \<in># sv_conns (sy_server s)" using add.hyps(2) c by (metis union_single_eq_member)
  have "\<exists>s1. system_step sem h s s1 \<and> sv_conns (sy_server s1) = M \<and> sy_pending s1 = sy_pending s"
  proof (cases ph)
    case Handshake
    then have "l = Https" using mem add.prems by (cases l) auto
    then show ?thesis
      using system_step.Insecure [of ip s sem h] mem c add.hyps(2) [symmetric] Handshake
      by (intro exI [of _ "with_server (handshake_failed sem ip) s"])
        (simp add: handshake_failed_def close_conn_def)
  next
    case Serving
    then show ?thesis
      using system_step.Closes [of l ip s sem h] mem c add.hyps(2) [symmetric]
      by (intro exI [of _ "with_server (close_conn sem l ip Serving) s"]) (simp add: close_conn_def)
  qed
  then obtain s1 where s1: "system_step sem h s s1" "M = sv_conns (sy_server s1)" "sy_pending s1 = sy_pending s"
    by auto
  have "\<forall>ip. (Http, ip, Handshake) \<notin># sv_conns (sy_server s1)"
    using handshake_phase [OF s1(1) add.prems] by blast
  from add.hyps(1) [OF s1(2) this] s1(3) obtain s' where
    "steps sem h s1 s'" "sv_conns (sy_server s') = {#}" "sy_pending s' = sy_pending s" by auto
  then show ?case using converse_rtranclp_into_rtranclp [of "system_step sem h", OF s1(1)] by blast
qed

lemma steps_reachable:
  "steps sem (run_proxy run) s s' \<Longrightarrow> system_reachable sem run s \<Longrightarrow> system_reachable sem run s'"
  by (induction rule: rtranclp_induct) (auto intro: system_reachable.Next)

text \<open>
  C15: Nothing leaks: from every reachable state the program can come to rest (requests end,
  connections close), and then all permits of both listeners are free, no address has a connection
  counted, and no backend an active request.
\<close>

theorem program_can_come_to_rest:
  assumes "semaphore_laws sem avail" and "startup read_file yaml lib a = Inr run"
    and "system_reachable sem run s"
  shows "\<exists>s'. steps sem (run_proxy run) s s' \<and> sv_conns (sy_server s') = {#} \<and> sy_pending s' = {#} \<and>
    (\<forall>l. avail (sv_permits (sy_server s') l) = unat (run_max_connections run)) \<and>
    (\<forall>ip. conn_count (sv_checker (sy_server s')) ip = 0) \<and>
    (\<forall>host lb i. balancer s' host = Some lb \<longrightarrow> i < length (lb_backends lb) \<longrightarrow> b_active (lb_backends lb ! i) = 0)"
proof -
  obtain s1 where s1: "steps sem (run_proxy run) s s1" "sy_pending s1 = {#}"
    using drain_pending by blast
  have "system_reachable sem run s1" using steps_reachable [OF s1(1) assms(3)] .
  then obtain s' where s': "steps sem (run_proxy run) s1 s'" "sv_conns (sy_server s') = {#}" "sy_pending s' = {#}"
    using drain_connections [of s1] reachable_phases s1(2) by metis
  have steps: "steps sem (run_proxy run) s s'" using s1(1) s'(1) by (rule rtranclp_trans)
  have reach: "system_reachable sem run s'" using steps_reachable [OF steps assms(3)] .
  note lst = system_listeners [OF reach]
  have "avail (sv_permits (sy_server s') l) = unat (run_max_connections run)" for l
    using reachable_permits [OF assms(1) lst] s'(2)
    by (simp add: permits_balance_def on_listener_def listeners_def)
  moreover have "conn_count (sv_checker (sy_server s')) ip = 0" for ip
  proof -
    obtain m fl where "run_security run = security_checker_new m fl" by (rule startup_security [OF assms(2)])
    from reachable_tracked [OF lst this] have "unat (conn_count (sv_checker (sy_server s')) ip) = 0"
      using s'(2) by (simp add: ips_tracked_def conn.tracks_def live_ips_def listeners_def)
    then show ?thesis by (simp add: unat_eq_0)
  qed
  moreover have "b_active (lb_backends lb ! i) = 0"
    if "balancer s' host = Some lb" "i < length (lb_backends lb)" for host lb i
  proof -
    have "guards.tracks lb (guards_on host s')"
      using system_balancers [OF reach startup_fresh [OF assms(2)]] that(1) by (simp add: balancers_ok_def)
    then have "lb_active lb i = 0" using s'(3) by (simp add: guards.tracks_def guards_on_def)
    then show ?thesis using that(2) by (simp add: lb_active_def unat_eq_0)
  qed
  ultimately show ?thesis using steps s'(2,3) by blast
qed

theorem program_can_come_to_rest_witness:
  "\<exists>s'. steps counting (run_proxy demo_run) demo_busy s' \<and> sv_conns (sy_server s') = {#} \<and>
     sv_permits (sy_server s') Http = unat (max_connections demo_server)"
  using program_can_come_to_rest [OF counting_laws demo_startup demo_busy_reachable]
  by (auto simp: demo_run_def)

section \<open>Who opens a circuit\<close>

lemma no_worse_opens_nothing:
  assumes "lb_no_worse lb lb'" and "i < length (lb_backends lb)" and "b_circuit_open (lb_backends lb' ! i)"
  shows "b_circuit_open (lb_backends lb ! i)"
  using assms by (auto simp: lb_no_worse_def list_all2_conv_all_nth no_worse_def)

lemma feedback_no_worse: "lb_no_worse lb (drop_guard g (feedback p r lb))"
proof -
  have "lb_no_worse lb (feedback p r lb)"
    by (simp add: feedback_def lb_no_worse_success) (simp add: lb_no_worse_def list_all2_refl)
  moreover have "lb_no_worse (feedback p r lb) (drop_guard g (feedback p r lb))"
    by (simp add: drop_guard_def lb_no_worse_update)
  ultimately show ?thesis by (rule lb_no_worse_trans)
qed

lemma start_no_worse:
  assumes "balancer s host = Some lb" and "balancer (start_request pf h ck l ip req s) host = Some lb'"
  shows "lb' = lb \<or> lb_no_worse lb lb'"
proof (cases rule: begin_request_cases [where pf = pf and h = "h\<lparr>ph_security := sv_checker (sy_server s)\<rparr>" and ck = ck
      and ip = ip and req = req and is_tls = "l = Https" and st = "sy_proxy s"])
  case (same r)
  with assms show ?thesis by (simp add: start_request_simps)
next
  case (down r host' lb0 lb1)
  then show ?thesis
    using assms lb_no_worse_select [of lb "ck_unix ck" "Some ip"]
    by (auto simp: start_request_simps lb_get_def split: if_splits)
next
  case (waits p lb0 lb1)
  then show ?thesis
    using assms lb_no_worse_select [of lb "ck_unix ck" "Some ip"]
    by (auto simp: start_request_simps lb_get_def split: if_splits)
qed

lemma probe_opens:
  assumes "\<not> b_circuit_open (lb_backends lb ! i)" and "i < length (lb_backends lb)"
    and "b_circuit_open (lb_backends (report_probe net now hc url lb) ! i)"
  shows "url = b_url (lb_backends lb ! i) \<and> 5 \<le> b_failures (lb_backends lb ! i) + 1 \<and> \<not> probe_ok hc net url"
proof (cases "probe_ok hc net url")
  case True
  then show ?thesis
    using no_worse_opens_nothing [OF lb_no_worse_success assms(2)] assms by (simp add: report_probe_ok)
next
  case False
  then show ?thesis
    using assms
    by (auto simp: report_probe_ok failure_def nth_on_url step_simps CB_THRESHOLD_def split: if_splits)
qed

text \<open>The circuits a step opens: closed before, open after.\<close>

definition opened :: "'sem system \<Rightarrow> 'sem system \<Rightarrow> (string \<times> nat) set" where
  "opened s s' =
     {(host, i). \<exists>lb lb'. balancer s host = Some lb \<and> balancer s' host = Some lb' \<and>
        i < length (lb_backends lb) \<and> \<not> b_circuit_open (lb_backends lb ! i) \<and> b_circuit_open (lb_backends lb' ! i)}"

lemma opened_empty:
  assumes "\<And>host lb lb'. balancer s host = Some lb \<Longrightarrow> balancer s' host = Some lb' \<Longrightarrow> lb' = lb \<or> lb_no_worse lb lb'"
  shows "opened s s' = {}"
  using assms no_worse_opens_nothing unfolding opened_def by blast

lemma requests_open_nothing:
  "opened s (start_request pf h ck l ip req s) = {}" "opened s (finish_request pf h p s) = {}"
  "opened s (drop_request p s) = {}"
proof -
  show "opened s (start_request pf h ck l ip req s) = {}" by (rule opened_empty) (rule start_no_worse)
  show "opened s (finish_request pf h p s) = {}"
  proof (rule opened_empty)
    fix host lb lb'
    assume "balancer s host = Some lb" and "balancer (finish_request pf h p s) host = Some lb'"
    then have "lb' = lb \<or> lb' = drop_guard (pd_guard p) (feedback p (asked pf h p) lb)"
      by (auto simp: request_end_simps end_request_def lb_get_update split: if_splits)
    then show "lb' = lb \<or> lb_no_worse lb lb'" using feedback_no_worse by blast
  qed
  show "opened s (drop_request p s) = {}"
  proof (rule opened_empty)
    fix host lb lb'
    assume "balancer s host = Some lb" and "balancer (drop_request p s) host = Some lb'"
    then have "lb' = lb \<or> lb' = drop_guard (pd_guard p) lb"
      by (auto simp: request_end_simps cancel_request_def lb_get_update split: if_splits)
    then show "lb' = lb \<or> lb_no_worse lb lb'"
      using lb_no_worse_update [of release lb] by (auto simp: drop_guard_def)
  qed
qed

lemma probe_step_opens:
  assumes "(host, i) \<in> opened s (probe_step net now k t url urls s)"
  shows "host = ht_domain t \<and> \<not> probe_ok (ht_config t) net url \<and>
    (\<exists>lb. balancer s host = Some lb \<and> b_url (lb_backends lb ! i) = url \<and> 5 \<le> b_failures (lb_backends lb ! i) + 1)"
proof -
  obtain lb lb' where lb: "balancer s host = Some lb" "balancer (probe_step net now k t url urls s) host = Some lb'"
    "i < length (lb_backends lb)" "\<not> b_circuit_open (lb_backends lb ! i)" "b_circuit_open (lb_backends lb' ! i)"
    using assms by (auto simp: opened_def)
  then have "host = ht_domain t" and "lb' = report_probe net now (ht_config t) url lb"
    by (auto simp: probe_step_simps lb_get_update split: if_splits)
  with probe_opens [OF lb(4,3)] lb show ?thesis by auto
qed

text \<open>
  C21: In the whole program only a failed health check opens a circuit. Requests, started, answered or
  dropped, open none; and when a step opens the circuit of a backend, then it is the end of a probe of
  its URL by the task of its domain, the probe failed, and at least four failures had been counted.
\<close>

theorem only_failed_probes_open_circuits:
  assumes "system_step sem h s s'"
  shows "opened s (start_request pf h ck l ip req s) = {} \<and> opened s (finish_request pf h p s) = {} \<and>
    opened s (drop_request p s) = {} \<and>
    (\<forall>(host, i) \<in> opened s s'. \<exists>net now k t url urls lb.
       k < length (sy_tasks s) \<and> sy_tasks s ! k = (t, url # urls) \<and> s' = probe_step net now k t url urls s \<and>
       \<not> check_backend net (check_url url (hc_path (ht_config t))) (hc_timeout_secs (ht_config t)) \<and>
       ht_domain t = host \<and> balancer s host = Some lb \<and> b_url (lb_backends lb ! i) = url \<and>
       5 \<le> b_failures (lb_backends lb ! i) + 1)"
proof -
  have "\<exists>net now k t url urls lb.
       k < length (sy_tasks s) \<and> sy_tasks s ! k = (t, url # urls) \<and> s' = probe_step net now k t url urls s \<and>
       \<not> probe_ok (ht_config t) net url \<and> ht_domain t = host \<and> balancer s host = Some lb \<and>
       b_url (lb_backends lb ! i) = url \<and> 5 \<le> b_failures (lb_backends lb ! i) + 1"
    if opens: "(host, i) \<in> opened s s'" for host i
    using assms
  proof cases
    case (Probes k t url urls net now)
    then show ?thesis using probe_step_opens [of host i s net now k t url urls] opens by metis
  next
    case (Asks l ip pf ck req)
    with opens show ?thesis by (simp add: requests_open_nothing)
  next
    case (Answers p pf)
    with opens show ?thesis by (simp add: requests_open_nothing)
  next
    case (Cancels p)
    with opens show ?thesis by (simp add: requests_open_nothing)
  qed (use opens in \<open>auto simp: opened_def\<close>)
  then have "\<forall>(host, i) \<in> opened s s'. \<exists>net now k t url urls lb.
       k < length (sy_tasks s) \<and> sy_tasks s ! k = (t, url # urls) \<and> s' = probe_step net now k t url urls s \<and>
       \<not> probe_ok (ht_config t) net url \<and> ht_domain t = host \<and> balancer s host = Some lb \<and>
       b_url (lb_backends lb ! i) = url \<and> 5 \<le> b_failures (lb_backends lb ! i) + 1"
    by blast
  then show ?thesis unfolding probe_ok_def by (intro conjI requests_open_nothing)
qed

definition deaf :: network where
  "deaf = \<lparr>net_peer = \<lambda>_ _. ConnectFails, net_millis = \<lambda>_ _. 0\<rparr>"

definition demo_failing :: "nat system" where
  "demo_failing =
     (with_proxy (update_lb ''d'' (\<lambda>lb. lb\<lparr>lb_backends := [(backend_new ''u'')\<lparr>b_failures := 4\<rparr>]\<rparr>))
        (system_new counting demo_run))
       \<lparr>sy_tasks := [(\<lparr>ht_domain = ''d'', ht_backends = [''u''], ht_config = health_check_default\<rparr>, [''u''])]\<rparr>"

theorem only_failed_probes_open_circuits_witness:
  "(''d'', 0) \<in> opened demo_failing
     (probe_step deaf 9 0 \<lparr>ht_domain = ''d'', ht_backends = [''u''], ht_config = health_check_default\<rparr> ''u'' [] demo_failing) \<and>
   (\<exists>t urls. sy_tasks demo_failing ! 0 = (t, ''u'' # urls) \<and> ht_domain t = ''d'')"
proof -
  let ?t = "\<lparr>ht_domain = ''d'', ht_backends = [''u''], ht_config = health_check_default\<rparr>"
  let ?s' = "probe_step deaf 9 0 ?t ''u'' [] demo_failing"
  have dead: "\<not> probe_ok hc deaf url" for hc url
    by (simp add: probe_ok_def check_backend_def do_get_def deaf_def case_prod_beta Let_def split: option.split)
  have step: "system_step counting (run_proxy demo_run) demo_failing ?s'"
    by (rule Probes) (simp_all add: demo_failing_def)
  obtain lb where lb: "balancer demo_failing ''d'' = Some lb" "lb_backends lb = [(backend_new ''u'')\<lparr>b_failures := 4\<rparr>]"
    by (simp add: demo_failing_def update_lb_def system_new_def server_new_def demo_run_def lb_get_def)
  have lb': "balancer ?s' ''d'' = Some (report_probe deaf 9 health_check_default ''u'' lb)"
    using lb(1) by (simp add: probe_step_simps lb_get_update)
  have "b_circuit_open (lb_backends (report_probe deaf 9 health_check_default ''u'' lb) ! 0)"
    using lb(2) dead
    by (simp add: report_probe_ok failure_def step_simps backend_new_def CB_THRESHOLD_def)
  then have mem: "(''d'', 0) \<in> opened demo_failing ?s'"
    using lb lb' by (auto simp: opened_def backend_new_def)
  note all = only_failed_probes_open_circuits
      [OF step, THEN conjunct2, THEN conjunct2, THEN conjunct2]
  from bspec [OF all mem] obtain k t url urls lb1 where
    "k < length (sy_tasks demo_failing)" "sy_tasks demo_failing ! k = (t, url # urls)" "ht_domain t = ''d''"
    "balancer demo_failing ''d'' = Some lb1" "b_url (lb_backends lb1 ! 0) = url"
    unfolding prod.case by (elim exE conjE)
  then show ?thesis using mem lb by (auto simp: backend_new_def demo_failing_def)
qed

end
