(* ===== verification/Admission.thy ===== *)
theory Admission
  imports SystemProps
begin

text \<open>
  The admission of connections by \<^verbatim>\<open>src/src/main.rs\<close> against its specification: a gate that knows the
  live connections and the blocked addresses, and nothing of semaphores, counters or guards. The whole
  program refines it.
\<close>

section \<open>The gate\<close>

record gate =
  ga_conns :: "(listener \<times> ip_addr \<times> phase) multiset"
  ga_blocked :: "ip_addr set"

definition admits :: "nat \<Rightarrow> nat \<Rightarrow> listener \<Rightarrow> ip_addr \<Rightarrow> gate \<Rightarrow> bool" where
  "admits overall per_ip l ip g \<longleftrightarrow>
     ip \<notin> ga_blocked g \<and> size {#c \<in># ga_conns g. fst c = l#} < overall \<and>
     size {#c \<in># ga_conns g. fst (snd c) = ip#} < per_ip"

text \<open>An HTTPS connection starts with its handshake; only a failed handshake may block an address.\<close>

inductive gate_step :: "nat \<Rightarrow> nat \<Rightarrow> gate \<Rightarrow> gate \<Rightarrow> bool" for overall per_ip where
  EntersHttp: "admits overall per_ip Http ip g \<Longrightarrow>
    gate_step overall per_ip g (g\<lparr>ga_conns := add_mset (Http, ip, Serving) (ga_conns g)\<rparr>)"
| EntersHttps: "admits overall per_ip Https ip g \<Longrightarrow>
    gate_step overall per_ip g (g\<lparr>ga_conns := add_mset (Https, ip, Handshake) (ga_conns g)\<rparr>)"
| Passes: "(Https, ip, Handshake) \<in># ga_conns g \<Longrightarrow>
    gate_step overall per_ip g
      (g\<lparr>ga_conns := add_mset (Https, ip, Serving) (ga_conns g - {#(Https, ip, Handshake)#})\<rparr>)"
| Breaks: "(Https, ip, Handshake) \<in># ga_conns g \<Longrightarrow> B \<subseteq> {ip} \<Longrightarrow>
    gate_step overall per_ip g
      \<lparr>ga_conns = ga_conns g - {#(Https, ip, Handshake)#}, ga_blocked = ga_blocked g \<union> B\<rparr>"
| Leaves: "(l, ip, Serving) \<in># ga_conns g \<Longrightarrow>
    gate_step overall per_ip g (g\<lparr>ga_conns := ga_conns g - {#(l, ip, Serving)#}\<rparr>)"

section \<open>The program refines it\<close>

definition gate_of :: "'sem system \<Rightarrow> gate" where
  "gate_of s =
     \<lparr>ga_conns = sv_conns (sy_server s), ga_blocked = {ip. blocked (sv_checker (sy_server s)) ip}\<rparr>"

lemma startup_limits:
  assumes "startup read_file yaml lib a = Inr run"
    and "config_load read_file yaml (arg_config a) = Inr cfg"
  shows "run_max_connections run = max_connections (cfg_server cfg)"
    and "run_security run = security_checker_new (max_connections_per_ip (cfg_server cfg)) (sv_security (cfg_server cfg))"
  using assms by (auto simp: startup_def apply_overrides_def Let_def split: sum.splits option.splits if_splits)

lemma arrival:
  assumes laws: "semaphore_laws sem avail" and reach: "system_reachable sem run s"
    and sec: "run_security run = security_checker_new m fl"
  shows "gate_of (with_server (accept_conn sem l ip) s) =
    (if admits (unat (run_max_connections run)) (unat m) l ip (gate_of s)
     then (gate_of s)\<lparr>ga_conns := add_mset (l, ip, first_phase l) (sv_conns (sy_server s))\<rparr> else gate_of s)"
proof -
  let ?sv = "sy_server s"
  note lst = system_listeners [OF reach]
  have "avail (sv_permits ?sv l) + size {#c \<in># sv_conns ?sv. fst c = l#} = unat (run_max_connections run)"
    using reachable_permits [OF laws lst] by (simp add: permits_balance_def on_listener_def listeners_def)
  then have permit: "sem_try_acquire sem (sv_permits ?sv l) = None \<longleftrightarrow>
      \<not> size {#c \<in># sv_conns ?sv. fst c = l#} < unat (run_max_connections run)"
    using laws by (auto simp: semaphore_laws_def)
  have tracked: "unat (conn_count (sv_checker ?sv) ip) = size {#c \<in># sv_conns ?sv. fst (snd c) = ip#}"
    "sc_max_connections_per_ip (sv_checker ?sv) = m"
    using reachable_tracked [OF lst sec] count_live_ips [of ?sv ip]
    by (simp_all add: ips_tracked_def conn.tracks_def live_ips_def listeners_def)
  obtain r sc where r: "check_and_acquire_connection (sv_checker ?sv) ip = (r, sc)" by fastforce
  have res: "r = Inr () \<longleftrightarrow> \<not> blocked (sv_checker ?sv) ip \<and>
      size {#c \<in># sv_conns ?sv. fst (snd c) = ip#} < unat m"
    using acquire_result [of "sv_checker ?sv" ip] r tracked by (simp add: word_less_nat_alt)
  have frame: "blocked sc = blocked (sv_checker ?sv)" using blocked_frame(1) [of "sv_checker ?sv" ip] r by simp
  show ?thesis
  proof (cases "sem_try_acquire sem (sv_permits ?sv l)")
    case None
    then show ?thesis using permit by (simp add: accept_conn_def gate_of_def admits_def)
  next
    case (Some p)
    then show ?thesis
      using permit res r frame by (cases r) (auto simp: accept_conn_def gate_of_def admits_def)
  qed
qed

lemma gate_of_simps:
  "gate_of (with_server (handshake_done ip) s) =
     (gate_of s)\<lparr>ga_conns := add_mset (Https, ip, Serving) (sv_conns (sy_server s) - {#(Https, ip, Handshake)#})\<rparr>"
  "gate_of (with_server (close_conn sem l ip ph) s) =
     (gate_of s)\<lparr>ga_conns := sv_conns (sy_server s) - {#(l, ip, ph)#}\<rparr>"
  "\<exists>B \<subseteq> {ip}. gate_of (with_server (handshake_failed sem ip) s) =
     \<lparr>ga_conns = sv_conns (sy_server s) - {#(Https, ip, Handshake)#}, ga_blocked = ga_blocked (gate_of s) \<union> B\<rparr>"
proof -
  let ?B = "{ip'. ip' = ip \<and> blocked (record_tls_failure (sv_checker (sy_server s)) ip) ip'}"
  have "gate_of (with_server (handshake_failed sem ip) s) =
     \<lparr>ga_conns = sv_conns (sy_server s) - {#(Https, ip, Handshake)#}, ga_blocked = ga_blocked (gate_of s) \<union> ?B\<rparr>"
    by (auto simp: gate_of_def handshake_failed_def close_conn_def blocked_frame tls_failure_blocked)
  then show "\<exists>B \<subseteq> {ip}. gate_of (with_server (handshake_failed sem ip) s) =
     \<lparr>ga_conns = sv_conns (sy_server s) - {#(Https, ip, Handshake)#}, ga_blocked = ga_blocked (gate_of s) \<union> B\<rparr>"
    by (intro exI [of _ ?B]) auto
qed (simp_all add: gate_of_def handshake_done_def close_conn_def blocked_frame)

text \<open>
  C16: Admission follows the specification, from start-up on and whatever the program does in between.
  An arrival is let in exactly when its address is not blocked, the listener has fewer live connections
  than \<^verbatim>\<open>max_connections\<close>, and the address has fewer, on both listeners, than
  \<^verbatim>\<open>max_connections_per_ip\<close>; otherwise nothing changes. And every step of the program is a step of the
  gate or leaves it alone.
\<close>

theorem system_refines_gate:
  assumes "semaphore_laws sem avail" and "startup read_file yaml lib a = Inr run"
    and "config_load read_file yaml (arg_config a) = Inr cfg"
    and "system_reachable sem run s" and "system_step sem (run_proxy run) s s'"
  shows "gate_of (with_server (accept_conn sem l ip) s) =
      (if admits (unat (max_connections (cfg_server cfg))) (unat (max_connections_per_ip (cfg_server cfg))) l ip (gate_of s)
       then (gate_of s)\<lparr>ga_conns := add_mset (l, ip, if l = Http then Serving else Handshake) (ga_conns (gate_of s))\<rparr>
       else gate_of s) \<and>
    (gate_of s' = gate_of s \<or>
     gate_step (unat (max_connections (cfg_server cfg))) (unat (max_connections_per_ip (cfg_server cfg)))
       (gate_of s) (gate_of s'))"
proof -
  note limits = startup_limits [OF assms(2,3)]
  have conns: "ga_conns (gate_of s) = sv_conns (sy_server s)" by (simp add: gate_of_def)
  have first: "first_phase l = (if l = Http then Serving else Handshake)" for l
    by (simp add: first_phase_def split: listener.split)
  note enter = arrival [OF assms(1,4) limits(2), unfolded limits(1) first, folded conns]
  from assms(5) have "gate_of s' = gate_of s \<or>
      gate_step (unat (max_connections (cfg_server cfg))) (unat (max_connections_per_ip (cfg_server cfg)))
        (gate_of s) (gate_of s')"
  proof cases
    case (Arrives l ip)
    then show ?thesis
      using enter [of l ip] gate_step.EntersHttp [of _ _ ip "gate_of s"] gate_step.EntersHttps [of _ _ ip "gate_of s"]
      by (cases l) auto
  next
    case (Secured ip)
    then show ?thesis
      using gate_step.Passes [of ip "gate_of s"] by (simp add: gate_of_simps conns)
  next
    case (Insecure ip)
    then show ?thesis
      using gate_of_simps(3) [of ip sem s] gate_step.Breaks [of ip "gate_of s"] by (auto simp: conns)
  next
    case (Closes l ip)
    then show ?thesis
      using gate_step.Leaves [of l ip "gate_of s"] by (simp add: gate_of_simps conns)
  qed (simp_all add: gate_of_def start_request_simps request_end_simps probe_step_simps)
  with enter show ?thesis by blast
qed

lemma demo_gate: "gate_of demo_busy = \<lparr>ga_conns = {#(Http, V4 1, Serving)#}, ga_blocked = {}\<rparr>"
proof -
  have "sv_checker (sy_server demo_busy) = sv_checker (sy_server demo_open)"
    by (simp add: demo_busy_def start_request_simps)
  moreover have "\<not> blocked (sv_checker (sy_server demo_open)) ip" for ip
    by (simp add: demo_open_def accept_conn_def system_new_def server_new_def counting_def demo_run_def
        check_and_acquire_connection_def security_checker_new_def demo_server_def blocked_def
        server_config_default_def default_defs)
  ultimately show ?thesis by (simp add: gate_of_def demo_busy_simps)
qed

theorem system_refines_gate_witness:
  "gate_of (with_server (accept_conn counting Http (V4 2)) demo_busy) =
     \<lparr>ga_conns = {#(Http, V4 2, Serving), (Http, V4 1, Serving)#}, ga_blocked = {}\<rparr>"
proof -
  have "system_step counting (run_proxy demo_run) demo_busy (with_server (accept_conn counting Http (V4 2)) demo_busy)"
    by (rule Arrives)
  from system_refines_gate [OF counting_laws demo_startup demo_load demo_busy_reachable this, of Http "V4 2"]
  show ?thesis
    by (simp add: admits_def demo_gate demo_server_def server_config_default_def default_defs)
qed

end
