(* ===== verification/Histories.thy ===== *)
theory Histories
  imports SystemProps
begin

text \<open>
  The balancers of the running program are balancers with a history: what \<open>System\<close> does to the balancer
  of a domain is a sequence of the operations of \<open>Probing\<close>, with the health check configuration of that
  domain. So the theorems of \<open>Probing\<close> on histories hold of the program.
\<close>

definition has_history :: "config \<Rightarrow> string \<Rightarrow> load_balancer \<Rightarrow> bool" where
  "has_history cfg host lb \<longleftrightarrow>
     (\<exists>c ops. (host, c) \<in> set (cfg_domains cfg) \<and> lb = ops_run (dc_health_check c) (load_balancer_new c) ops)"

lemma history_op:
  assumes "has_history cfg host lb"
    and "\<And>c. (host, c) \<in> set (cfg_domains cfg) \<Longrightarrow> lb' = op_step (dc_health_check c) lb x"
  shows "has_history cfg host lb'"
proof -
  obtain c ops where c: "(host, c) \<in> set (cfg_domains cfg)"
    and lb: "lb = ops_run (dc_health_check c) (load_balancer_new c) ops"
    using assms(1) unfolding has_history_def by blast
  have "lb' = ops_run (dc_health_check c) (load_balancer_new c) (ops @ [x])"
    using assms(2) [OF c] lb by simp
  with c show ?thesis unfolding has_history_def by blast
qed

lemma history_simps:
  assumes "has_history cfg host lb"
  shows "has_history cfg host (snd (select clk ip lb))" "has_history cfg host (drop_guard g lb)"
    "has_history cfg host (success url lb)"
  by (rule history_op [OF assms, where x = "Selected clk ip"], simp)
    (rule history_op [OF assms, where x = "Returned g"], simp,
     rule history_op [OF assms, where x = "Answered url"], simp)

section \<open>Tasks\<close>

lemma map_fst_update:
  "i < length xs \<Longrightarrow> xs ! i = (t, y) \<Longrightarrow> map fst (xs[i := (t, z)]) = map fst xs"
  by (simp add: map_update) (metis fst_conv length_map list_update_id nth_map)

lemma step_tasks:
  "system_step sem h s s' \<Longrightarrow> map fst (sy_tasks s') = map fst (sy_tasks s)"
  by (induction rule: system_step.induct)
    (simp_all add: start_request_simps request_end_simps probe_step_simps map_fst_update)

lemma reachable_tasks:
  "system_reachable sem run s \<Longrightarrow> map fst (sy_tasks s) = run_tasks run"
  by (induction rule: system_reachable.induct) (simp_all add: step_tasks system_new_def comp_def)

lemma startup_tasks:
  assumes "startup read_file yaml lib a = Inr run"
    and "config_load read_file yaml (arg_config a) = Inr cfg" and "t \<in> set (run_tasks run)"
  shows "\<exists>c. (ht_domain t, c) \<in> set (cfg_domains cfg) \<and> ht_config t = dc_health_check c"
proof -
  have "run_tasks run = start_health_checks (cfg_domains cfg)"
    using assms(1,2)
    by (auto simp: startup_def apply_overrides_def Let_def split: sum.splits option.splits if_splits)
  with assms(3) show ?thesis by (auto simp: start_health_checks_def)
qed

section \<open>Balancers\<close>

text \<open>
  From start-up on, the balancer of a domain is at every time the result of a sequence of selections,
  returned guards, answered requests and probes on the fresh balancer of its configuration; an open
  circuit in it has seen five failed probes in a row, and only the first backend of a URL has one.
\<close>

theorem balancers_have_histories:
  assumes "startup read_file yaml lib a = Inr run"
    and "config_load read_file yaml (arg_config a) = Inr cfg" and "distinct (map fst (cfg_domains cfg))"
    and "system_reachable sem run s" and "balancer s host = Some lb"
  shows "\<exists>c ops. (host, c) \<in> set (cfg_domains cfg) \<and>
    lb = ops_run (dc_health_check c) (load_balancer_new c) ops \<and>
    (\<forall>i < length (dc_backends c). b_circuit_open (lb_backends lb ! i) \<longrightarrow>
       heard (dc_backends c) i \<and> 5 \<le> failing (verdicts (dc_health_check c) (dc_backends c ! i) ops))"
proof -
  have "has_history cfg host lb"
    using assms(4,5)
  proof (induction arbitrary: host lb rule: system_reachable.induct)
    case Boot
    then have "lb_get (ps_lb_manager (run_state run)) host = Some lb" by (simp add: system_new_def server_new_def)
    from startup_balancers [OF assms(1,2) this] obtain c where c: "(host, c) \<in> set (cfg_domains cfg)"
      and lb: "lb = load_balancer_new c" by blast
    have "lb = ops_run (dc_health_check c) (load_balancer_new c) []" by (simp add: lb)
    with c show ?case unfolding has_history_def by blast
  next
    case (Next s s')
    note IH = Next.IH
    from Next.hyps(2) show ?case
    proof cases
      case (Asks l ip pf ck req)
      show ?thesis
      proof (cases rule: begin_request_cases [where pf = pf and ck = ck and ip = ip and req = req
            and h = "(run_proxy run)\<lparr>ph_security := sv_checker (sy_server s)\<rparr>" and is_tls = "l = Https"
            and st = "sy_proxy s"])
        case (same r)
        with Asks Next.prems IH show ?thesis by (simp add: start_request_simps)
      next
        case (down r host' lb0 lb1)
        then show ?thesis
          using Asks Next.prems IH history_simps(1) [of cfg host lb0 "ck_unix ck" "Some ip"]
          by (auto simp: start_request_simps lb_get_def split: if_splits)
      next
        case (waits p lb0 lb1)
        then show ?thesis
          using Asks Next.prems IH history_simps(1) [of cfg host lb0 "ck_unix ck" "Some ip"]
          by (auto simp: start_request_simps lb_get_def split: if_splits)
      qed
    next
      case (Answers p pf)
      then show ?thesis
        using Next.prems IH history_simps(2,3)
        by (auto simp: request_end_simps end_request_def lb_get_update feedback_def split: if_splits)
    next
      case (Cancels p)
      then show ?thesis
        using Next.prems IH history_simps(2)
        by (auto simp: request_end_simps cancel_request_def lb_get_update split: if_splits)
    next
      case (Probes k t url urls net now)
      have "t \<in> set (run_tasks run)"
        using reachable_tasks [OF Next.hyps(1)] Probes(2,3)
        by (metis fst_conv length_map nth_map nth_mem)
      from startup_tasks [OF assms(1,2) this] obtain c where c: "(ht_domain t, c) \<in> set (cfg_domains cfg)"
        "ht_config t = dc_health_check c" by blast
      show ?thesis
      proof (cases "host = ht_domain t")
        case True
        then obtain lb0 where lb0: "balancer s host = Some lb0" "lb = report_probe net now (ht_config t) url lb0"
          using Next.prems Probes(1) by (auto simp: probe_step_simps lb_get_update)
        have "lb = op_step (dc_health_check c') lb0 (Probed net now url)"
          if "(host, c') \<in> set (cfg_domains cfg)" for c'
          using that c lb0(2) True assms(3) by (metis eq_key_imp_eq_value op_step.simps(4))
        then show ?thesis by (rule history_op [OF IH [OF lb0(1)]])
      next
        case False
        with Next.prems Probes(1) IH show ?thesis by (simp add: probe_step_simps lb_get_update)
      qed
    qed (use Next.prems IH in simp_all)
  qed
  then obtain c ops where c: "(host, c) \<in> set (cfg_domains cfg)"
    and lb: "lb = ops_run (dc_health_check c) (load_balancer_new c) ops"
    unfolding has_history_def by blast
  have "heard (dc_backends c) i \<and> 5 \<le> failing (verdicts (dc_health_check c) (dc_backends c ! i) ops)"
    if "i < length (dc_backends c)" "b_circuit_open (lb_backends lb ! i)" for i
    using open_circuit_history [OF that(1)] that(2) by (simp add: lb backend_after_def)
  with c lb show ?thesis by blast
qed

end
