(* ===== verification/Spec2Isabelle.thy ===== *)
theory Spec2Isabelle
  imports Prelude RustStr RustFloat Http ErrorPages Config RateLimit Security LoadBalancer
    Breaker BalancerProps Atomics Interleaving InterleavingProps HealthCheck Probing Paths StaticFiles
    Proxy ProxyProps Requests Tunnel Ssl Server ServerProps System SystemProps Admission Histories
begin

text \<open>
  A model of curf, a reverse proxy and static web server written in Rust (\<^verbatim>\<open>src/src/*.rs\<close>), and
  the theorems that make it correct.

  \<^bold>\<open>The program.\<close> \<^verbatim>\<open>main.rs\<close> loads a YAML configuration, builds one load balancer per domain,
  the certificates, one rate limiter, one security checker and the request handler, starts the
  health checks and runs an HTTP and an HTTPS accept loop. Every accepted connection holds a
  permit of its listener and a per-address guard, and hands each request to \<^verbatim>\<open>ProxyHandler::handle\<close>.
  The handler passes a request through the rate limiter, the request filter and the redirect to
  HTTPS, and then answers it from a WebSocket backend, from disk, or from an HTTP backend chosen by
  the balancer. Health checks and answered requests feed the circuit breaker of each backend.

  \<^bold>\<open>The theories\<close>, in dependency order, with the source they model:

  \<^item> \<^verbatim>\<open>Prelude\<close>: machine words, addresses, lemma collections, and the locale \<^verbatim>\<open>guarded_count\<close>, the
    contract of a resource counted by guards. It is interpreted on the connection counts of
    \<^verbatim>\<open>Security\<close> and on the active counts of \<^verbatim>\<open>BalancerProps\<close>.
  \<^item> \<^verbatim>\<open>RustStr\<close>, \<^verbatim>\<open>RustFloat\<close>: what the program uses of Rust's strings, number parsing and printing,
    UTF-8 validation, and \<^verbatim>\<open>f64\<close>. A float is the rational it stands for and every operation rounds to
    53 bits, ties to even (\<^verbatim>\<open>rnd64\<close>; the range is never left). The locale \<^verbatim>\<open>f64_rounding\<close> holds the laws of
    the rounding the rate limiter needs.
  \<^item> \<^verbatim>\<open>Http\<close>, \<^verbatim>\<open>ErrorPages\<close> (\<^verbatim>\<open>error.rs\<close>): requests, responses, header maps, and the error pages.
  \<^item> \<^verbatim>\<open>Config\<close> (\<^verbatim>\<open>config.rs\<close>): the configuration records, the defaults, and the reading of a parsed
    document, in which each key is present or absent, with the serde attributes written out.
  \<^item> \<^verbatim>\<open>RateLimit\<close> (\<^verbatim>\<open>rate_limit.rs\<close>): the token buckets. An instant is a number of nanoseconds.
  \<^item> \<^verbatim>\<open>Security\<close> (\<^verbatim>\<open>security.rs\<close>): connection counts, TLS failures and the block list, the filter.
  \<^item> \<^verbatim>\<open>LoadBalancer\<close>, \<^verbatim>\<open>Breaker\<close>, \<^verbatim>\<open>BalancerProps\<close> (\<^verbatim>\<open>load_balancer.rs\<close>): backends with their circuit
    breaker, the three strategies, guards, the manager; the locale \<^verbatim>\<open>health_probe\<close> is what a strategy
    relies on when it probes a backend. \<^verbatim>\<open>Breaker\<close> has the circuit over every sequence of calls of the
    methods of a backend.
  \<^item> \<^verbatim>\<open>Atomics\<close>, \<^verbatim>\<open>Interleaving\<close>, \<^verbatim>\<open>InterleavingProps\<close>: the same operations at the grain of the
    atomics of \<^verbatim>\<open>load_balancer.rs\<close>. An operation is the tree of its accesses (\<^verbatim>\<open>prog\<close>); \<^verbatim>\<open>alone\<close> runs it
    without interference, a \<^verbatim>\<open>pool\<close> interleaves any number of them. Three judgements on trees,
    \<^verbatim>\<open>typed\<close>, \<^verbatim>\<open>within\<close> and \<^verbatim>\<open>tame\<close>, are checked once per operation and kept by every access.
  \<^item> \<^verbatim>\<open>HealthCheck\<close>, \<^verbatim>\<open>Probing\<close> (\<^verbatim>\<open>health_check.rs\<close>): probe URL, request and status line, rounds and
    tasks; the locale \<^verbatim>\<open>outcome_sink\<close> is what the checker relies on in the balancer. \<^verbatim>\<open>Probing\<close> puts the
    probes among all the other operations on a balancer, in any order.
  \<^item> \<^verbatim>\<open>Paths\<close>, \<^verbatim>\<open>StaticFiles\<close> (\<^verbatim>\<open>static_files.rs\<close>): Unix paths as their components, path resolution,
    conditional requests, files, listings. The formatter of dates may panic, so a request is not
    served, served, or panics.
  \<^item> \<^verbatim>\<open>Proxy\<close>, \<^verbatim>\<open>ProxyProps\<close> (\<^verbatim>\<open>proxy.rs\<close>): the handler, one call per request.
  \<^item> \<^verbatim>\<open>Requests\<close>: the handler in two halves, \<^verbatim>\<open>begin_request\<close> up to the wait for the backend and
    \<^verbatim>\<open>end_request\<close> after it, or \<^verbatim>\<open>cancel_request\<close>. \<^verbatim>\<open>Tunnel\<close>: the task of a WebSocket tunnel.
  \<^item> \<^verbatim>\<open>Ssl\<close> (\<^verbatim>\<open>ssl.rs\<close>): loading certificates and keys, building the acceptor.
  \<^item> \<^verbatim>\<open>Server\<close>, \<^verbatim>\<open>ServerProps\<close> (\<^verbatim>\<open>main.rs\<close>): the command line options, start-up, the binding of the
    ports, and the accept loops as the transition system \<^verbatim>\<open>server_step\<close> with its \<^verbatim>\<open>reachable\<close> states.
  \<^item> \<^verbatim>\<open>System\<close>, \<^verbatim>\<open>SystemProps\<close>: the whole running program, \<^verbatim>\<open>system_step\<close>: connections, requests in
    flight, tunnels and health check tasks over the same balancers, limiter and checker.
  \<^item> \<^verbatim>\<open>Admission\<close>: the specification of the admission of connections, a gate that knows the live
    connections and the blocked addresses, and the refinement of the program to it. \<^verbatim>\<open>Histories\<close>: the
    balancers of the running program are those of \<^verbatim>\<open>Probing\<close>.

  \<^bold>\<open>What the theorems show.\<close>

  \<^item> Rate limiting: the number of requests admitted in any window is bounded by burst and rate,
    rounding included; a fresh client gets the burst and an idle one is served again; buckets stay
    in range; clients do not affect each other. The bound needs the calls in the order of their
    instants: out of order, the same time is credited again and again.
  \<^item> Circuit breaker and balancing: the circuit is open exactly when five failures count, in a row and
    since the last reset, whatever is called in whatever order; it shuts the backend out for 30 seconds
    on the clock of the program, and its reset is complete; a selection fails only when every
    backend is down; round robin is even, least connections minimal, IP hash sticky; active counts
    are the guards that are out, under any interleaving.
  \<^item> Health checks: which replies count as healthy; that, whatever else happens to the balancer, an
    open circuit has seen five failed probes in a row, and five failed probes open it and keep the
    backend from being selected unless it answers a request or the clock of a selection is 30 seconds
    or more past the latest probe; and that this is so of the balancers of the running program.
  \<^item> Static files: resolved paths stay in the root and nothing outside it influences a response;
    tags revalidate; \<^verbatim>\<open>HEAD\<close> agrees with \<^verbatim>\<open>GET\<close>; listings are sorted and complete.
  \<^item> Handler: the gates come before disk and backends; every request gives its guard back on every
    path; the possible replies; when it panics; what a backend is told; traffic never opens a circuit.
  \<^item> Interleavings: run alone the accesses of an operation are the operation; in every interleaving
    active counts are the guards that are out or owned by an operation in progress, operations are
    wait-free, and a circuit opens only after five reports; reports are not atomic, though, and one
    can undo half of another.
  \<^item> Whole program: it refines the gate, which lets an arrival in exactly when its address is not
    blocked and neither limit is reached; the handler is its two halves; active counts are
    the requests in flight; a request only waits for a backend its domain is configured with; only
    a failed health check opens a circuit; and from every reachable state the program can come to
    rest with nothing leaked. As the listeners serve their connections no WebSocket tunnel copies a
    byte; one that did would not survive a half-close.
  \<^item> Start-up: which key of a file is loaded (one unreadable section hides all), which listeners come up, how domains are wired.
  \<^item> Server: permits and per-address counts are those of the live connections in every reachable
    state; blocked addresses get no further connection.

  \<^bold>\<open>Parameters.\<close> What lies outside the repository is an argument of the definitions: the YAML parser
  and the file of \<^verbatim>\<open>Config::load\<close>; the Unicode lower-casing of the filter; the file system (one
  snapshot per request), percent decoding, HTTP dates, MIME types, header validity and URI parsing;
  what a backend does with a request, and what other tasks do to a balancer while a request waits;
  the network of a health probe; PEM and rustls; clap's reading of the command line; the binding of
  ports; tokio's semaphore and its copying of streams. Theorems that rely on their documented
  behaviour say so in a hypothesis (\<^verbatim>\<open>semaphore_laws\<close>, up to the
  largest number of permits \<^verbatim>\<open>sem_max\<close>; \<^verbatim>\<open>pem_readers\<close>; the two facts on dates).

  \<^bold>\<open>Panics.\<close> The release profile of \<^verbatim>\<open>Cargo.toml\<close> has \<^verbatim>\<open>panic = "abort"\<close>: a panic anywhere ends the
  process. The model says where one happens: \<^verbatim>\<open>Panicked\<close> of the handler, \<^verbatim>\<open>ServePanics\<close> of the static
  files, a task whose interval is zero, a semaphore larger than \<^verbatim>\<open>sem_max\<close>. \<^verbatim>\<open>system_step\<close> goes on after
  a panic of the handler, so its reachable states are those before the abort and more; invariants of
  all of them hold before the abort.

  \<^bold>\<open>Bounds.\<close> Nothing uses fuel: every loop of the program that is modelled runs over a list or a
  counter. The endless loops (accept loops, health check tasks) are a step relation and a function of
  the ticks that have happened. Atomics and sizes are 64-bit words; where a theorem needs that a
  counter has not wrapped it says so (fewer than \<open>2^64\<close> events, fewer than \<open>2^64 - 1\<close> requests in
  flight). In \<^verbatim>\<open>LoadBalancer\<close> and everything built on it a selection, the drop of a guard and the
  report of an outcome are one step each; \<^verbatim>\<open>Interleaving\<close> takes them apart, and shows which properties
  survive and which do not. The accesses there are in one sequence: what \<^verbatim>\<open>Relaxed\<close> allows beyond
  that, different threads seeing stores to different atomics in different orders, is not modelled.
  The bound \<open>6 n + 4\<close> of wait-freedom is six accesses for each of \<open>n\<close> backends probed and four for the
  longest report.

  \<^bold>\<open>Not modelled.\<close> The logging; socket input and output and the HTTP protocol of hyper, which appear
  as the steps they cause; timing beyond the limits stated. The response body of a backend is its
  content; the guard of a request is released when the head of the response is there, as in the code.
\<close>

end
